(* ===== verification/Prelude.thy ===== *)
theory Prelude
  imports Main "HOL-Library.Word"
begin

text \<open>
  Shared vocabulary of the development: the machine integers of the Rust code, the errors
  of \<^verbatim>\<open>src/error.rs\<close>, the four ways a Rust call can end, and the slice operations of the
  standard library with their bounds checks written out.

  \<^item> \<open>outcome\<close> is the result of a call: a value, a \<open>TetherError\<close> returned through
    \<open>Result\<close>, a panic (index out of range, failed \<open>unwrap\<close>), or undefined behaviour
    (an access of an \<open>unsafe\<close> block outside its buffer).
  \<^item> \<open>and_then\<close> sequences calls as the \<open>?\<close> operator and the statement order do.
  \<^item> \<open>usize\<close> is \<open>nat\<close>: the targets are 64 bit and every length is far below \<open>2 ^ 63\<close>,
    so address arithmetic never wraps. Fixed-width fields are words, whose arithmetic
    wraps as it does in the release profile the program is shipped with.
\<close>

unbundle bit_operations_syntax

type_synonym u8 = "8 word"
type_synonym u16 = "16 word"
type_synonym u32 = "32 word"
type_synonym u64 = "64 word"

section \<open>Errors and outcomes\<close>

text \<open>
  \<open>TetherError\<close> of \<^verbatim>\<open>src/error.rs\<close>. The payloads of the foreign error types
  (\<open>nusb::Error\<close>, \<open>TransferError\<close>, \<open>io::Error\<close>) are kept as their message.
\<close>

datatype tether_error =
    Usb string
  | UsbTransfer string
  | Rndis_Error string
  | DeviceNotFound string
  | Network string
  | Dhcp_Error string
  | Arp_Error string
  | Config_Error string
  | Ipc_Error string
  | Io string
  | InvalidIp string
  | UnsupportedProtocol string
  | BufferTooSmall nat nat
  | Timeout

datatype 'a outcome = Ok 'a | Err tether_error | Panic | Undefined

fun and_then :: "'a outcome \<Rightarrow> ('a \<Rightarrow> 'b outcome) \<Rightarrow> 'b outcome" where
  "and_then (Ok x) f = f x"
| "and_then (Err e) f = Err e"
| "and_then Panic f = Panic"
| "and_then Undefined f = Undefined"

definition map_ok :: "('a \<Rightarrow> 'b) \<Rightarrow> 'a outcome \<Rightarrow> 'b outcome" where
  "map_ok f m = and_then m (\<lambda>x. Ok (f x))"

definition is_ok :: "'a outcome \<Rightarrow> bool" where
  "is_ok m = (case m of Ok _ \<Rightarrow> True | _ \<Rightarrow> False)"

text \<open>A call that neither panics nor leaves the defined fragment of the language.\<close>

definition no_fault :: "'a outcome \<Rightarrow> bool" where
  "no_fault m = (case m of Panic \<Rightarrow> False | Undefined \<Rightarrow> False | _ \<Rightarrow> True)"

lemma map_ok_simps [simp]:
  "map_ok f (Ok x) = Ok (f x)"
  "map_ok f (Err e) = Err e"
  "map_ok f Panic = Panic"
  "map_ok f Undefined = Undefined"
  by (simp_all add: map_ok_def)

lemma is_ok_simps [simp]:
  "is_ok (Ok x)" "\<not> is_ok (Err e)" "\<not> is_ok Panic" "\<not> is_ok Undefined"
  by (simp_all add: is_ok_def)

lemma no_fault_simps [simp]:
  "no_fault (Ok x)" "no_fault (Err e)" "\<not> no_fault Panic" "\<not> no_fault Undefined"
  by (simp_all add: no_fault_def)

lemma is_ok_iff: "is_ok m \<longleftrightarrow> (\<exists>x. m = Ok x)"
  by (cases m) auto

lemma and_then_cong [fundef_cong]:
  "m = m' \<Longrightarrow> (\<And>x. m' = Ok x \<Longrightarrow> f x = g x) \<Longrightarrow> and_then m f = and_then m' g"
  by (cases m') auto

lemma and_then_eq_Ok_iff:
  "and_then m f = Ok y \<longleftrightarrow> (\<exists>x. m = Ok x \<and> f x = Ok y)"
  by (cases m) auto

lemma and_then_assoc: "and_then (and_then m f) g = and_then m (\<lambda>x. and_then (f x) g)"
  by (cases m) auto

lemma and_then_Ok_right [simp]: "and_then m Ok = m"
  by (cases m) auto

lemma map_ok_eq_Ok_iff: "map_ok f m = Ok y \<longleftrightarrow> (\<exists>x. m = Ok x \<and> y = f x)"
  by (cases m) auto

lemma and_then_map_ok: "and_then (map_ok f m) g = and_then m (\<lambda>x. g (f x))"
  by (cases m) auto

lemma map_ok_and_then: "map_ok f (and_then m g) = and_then m (\<lambda>x. map_ok f (g x))"
  by (cases m) auto

lemma map_ok_map_ok: "map_ok f (map_ok g m) = map_ok (\<lambda>x. f (g x)) m"
  by (cases m) auto

lemma no_fault_and_then:
  "no_fault m \<Longrightarrow> (\<And>x. m = Ok x \<Longrightarrow> no_fault (f x)) \<Longrightarrow> no_fault (and_then m f)"
  by (cases m) auto

lemma no_fault_map_ok [simp]: "no_fault (map_ok f m) = no_fault m"
  by (cases m) auto

lemma no_fault_iff: "no_fault m \<longleftrightarrow> m \<noteq> Panic \<and> m \<noteq> Undefined"
  by (cases m) auto

section \<open>Calls that act on the outside world\<close>

text \<open>
  Code that talks to a device, a socket or a file runs in a world of type \<open>'w\<close>, which the
  foreign libraries transform. \<open>io_then\<close> is sequencing with \<open>?\<close>, \<open>io_try\<close> hands an error
  to the caller as a value (\<open>match\<close> on a \<open>Result\<close>), a fault ends the computation.
\<close>

type_synonym ('w, 'a) io = "'w \<Rightarrow> 'a outcome \<times> 'w"

definition io_lift :: "'a outcome \<Rightarrow> ('w, 'a) io" where
  "io_lift m w = (m, w)"

definition io_then :: "('w, 'a) io \<Rightarrow> ('a \<Rightarrow> ('w, 'b) io) \<Rightarrow> ('w, 'b) io" where
  "io_then m f w = (case m w of (r, w') \<Rightarrow>
     (case r of Ok x \<Rightarrow> f x w' | Err e \<Rightarrow> (Err e, w') | Panic \<Rightarrow> (Panic, w')
      | Undefined \<Rightarrow> (Undefined, w')))"

definition io_try :: "('w, 'a) io \<Rightarrow> ('w, tether_error + 'a) io" where
  "io_try m w = (case m w of (r, w') \<Rightarrow>
     (case r of Ok x \<Rightarrow> Ok (Inr x) | Err e \<Rightarrow> Ok (Inl e) | Panic \<Rightarrow> Panic
      | Undefined \<Rightarrow> Undefined, w'))"

named_theorems io_run \<open>running world-passing code on known results\<close>

lemma io_lift_run [io_run]: "io_lift m w = (m, w)"
  by (simp add: io_lift_def)

lemma io_then_Ok [io_run]: "m w = (Ok x, w') \<Longrightarrow> io_then m f w = f x w'"
  by (simp add: io_then_def)

lemma io_then_Err: "m w = (Err e, w') \<Longrightarrow> io_then m f w = (Err e, w')"
  by (simp add: io_then_def)

lemma io_then_lift [io_run]:
  "io_then (io_lift (Ok x)) f = f x"
  "io_then (io_lift (Err e)) f = io_lift (Err e)"
  "io_then (io_lift Panic) f = io_lift Panic"
  "io_then (io_lift Undefined) f = io_lift Undefined"
  by (simp_all add: io_then_def io_lift_def fun_eq_iff)

lemma io_then_eq_Ok_iff:
  "io_then m f w = (Ok y, w2) \<longleftrightarrow> (\<exists>x w1. m w = (Ok x, w1) \<and> f x w1 = (Ok y, w2))"
  by (auto simp: io_then_def split: prod.splits outcome.splits)

lemma io_then_OkE:
  assumes "io_then m f w = (Ok y, w2)"
  obtains x w1 where "m w = (Ok x, w1)" "f x w1 = (Ok y, w2)"
  using assms by (auto simp: io_then_eq_Ok_iff)

lemma io_lift_eq_Ok [simp]: "io_lift m w = (Ok y, w2) \<longleftrightarrow> m = Ok y \<and> w2 = w"
  by (auto simp: io_lift_def)

lemma io_try_eq_Inr: "io_try m w = (Ok (Inr x), w') \<longleftrightarrow> m w = (Ok x, w')"
  by (auto simp: io_try_def split: prod.splits outcome.splits)

lemma no_fault_io_then:
  assumes "no_fault (fst (m w))"
    and "\<And>x w'. m w = (Ok x, w') \<Longrightarrow> no_fault (fst (f x w'))"
  shows "no_fault (fst (io_then m f w))"
  using assms by (cases "m w"; cases "fst (m w)") (auto simp: io_then_def)

lemma no_fault_io_try: "no_fault (fst (io_try m w)) \<longleftrightarrow> no_fault (fst (m w))"
  by (auto simp: io_try_def split: prod.splits outcome.splits)

section \<open>Slices\<close>

text \<open>
  \<open>subslice xs a b\<close> is \<open>&xs[a..b]\<close>, \<open>index xs i\<close> is \<open>xs[i]\<close>, \<open>store xs i v\<close> is
  \<open>xs[i] = v\<close> and \<open>copy_range xs a b ys\<close> is \<open>xs[a..b].copy_from_slice(ys)\<close>: each panics
  outside its bounds, and the copy also when the lengths differ. \<open>read_raw\<close> and
  \<open>write_raw\<close> are the pointer accesses of the \<open>unsafe\<close> blocks, which check nothing.
\<close>

definition subslice :: "'a list \<Rightarrow> nat \<Rightarrow> nat \<Rightarrow> 'a list outcome" where
  "subslice xs a b = (if a \<le> b \<and> b \<le> length xs then Ok (take (b - a) (drop a xs)) else Panic)"

definition subslice_from :: "'a list \<Rightarrow> nat \<Rightarrow> 'a list outcome" where
  "subslice_from xs a = subslice xs a (length xs)"

definition subslice_to :: "'a list \<Rightarrow> nat \<Rightarrow> 'a list outcome" where
  "subslice_to xs b = subslice xs 0 b"

definition index :: "'a list \<Rightarrow> nat \<Rightarrow> 'a outcome" where
  "index xs i = (if i < length xs then Ok (xs ! i) else Panic)"

definition store :: "'a list \<Rightarrow> nat \<Rightarrow> 'a \<Rightarrow> 'a list outcome" where
  "store xs i v = (if i < length xs then Ok (xs[i := v]) else Panic)"

definition copy_range :: "'a list \<Rightarrow> nat \<Rightarrow> nat \<Rightarrow> 'a list \<Rightarrow> 'a list outcome" where
  "copy_range xs a b ys =
     (if a \<le> b \<and> b \<le> length xs \<and> length ys = b - a
      then Ok (take a xs @ ys @ drop b xs) else Panic)"

definition read_raw :: "'a list \<Rightarrow> nat \<Rightarrow> nat \<Rightarrow> 'a list outcome" where
  "read_raw xs off n = (if off + n \<le> length xs then Ok (take n (drop off xs)) else Undefined)"

definition write_raw :: "'a list \<Rightarrow> nat \<Rightarrow> 'a list \<Rightarrow> 'a list outcome" where
  "write_raw xs off ys =
     (if off + length ys \<le> length xs
      then Ok (take off xs @ ys @ drop (off + length ys) xs) else Undefined)"

named_theorems subslice_defs \<open>the slice operations, unfolded to their bounds checks\<close>

lemmas [subslice_defs] =
  subslice_def subslice_from_def subslice_to_def index_def store_def copy_range_def
  read_raw_def write_raw_def

lemma subslice_ok [simp]:
  "a \<le> b \<Longrightarrow> b \<le> length xs \<Longrightarrow> subslice xs a b = Ok (take (b - a) (drop a xs))"
  by (simp add: subslice_def)

lemma subslice_from_ok [simp]: "a \<le> length xs \<Longrightarrow> subslice_from xs a = Ok (drop a xs)"
  by (simp add: subslice_from_def)

lemma subslice_to_ok [simp]: "b \<le> length xs \<Longrightarrow> subslice_to xs b = Ok (take b xs)"
  by (simp add: subslice_to_def)

lemma index_ok [simp]: "i < length xs \<Longrightarrow> index xs i = Ok (xs ! i)"
  by (simp add: index_def)

lemma store_ok [simp]: "i < length xs \<Longrightarrow> store xs i v = Ok (xs[i := v])"
  by (simp add: store_def)

lemma subslice_eq_Ok_iff:
  "subslice xs a b = Ok ys \<longleftrightarrow> a \<le> b \<and> b \<le> length xs \<and> ys = take (b - a) (drop a xs)"
  by (auto simp: subslice_def)

lemma subslice_not_Err [simp]: "subslice xs a b \<noteq> Err e" "subslice xs a b \<noteq> Undefined"
  by (simp_all add: subslice_def)

lemma index_eq_Ok_iff: "index xs i = Ok v \<longleftrightarrow> i < length xs \<and> v = xs ! i"
  by (auto simp: index_def)

lemma no_fault_slice: "no_fault (subslice xs a b) \<longleftrightarrow> a \<le> b \<and> b \<le> length xs"
  by (simp add: subslice_def)

text \<open>
  Buffers are built left to right: what a store or a copy does beyond a known prefix, it
  does to the rest. With the base cases at offset 0 these equations run a sequence of
  writes as symbolic evaluation.
\<close>

lemma copy_range_0:
  "length ys \<le> length xs \<Longrightarrow> b = length ys \<Longrightarrow> copy_range xs 0 b ys = Ok (ys @ drop b xs)"
  by (simp add: copy_range_def)

lemma copy_range_append:
  "length ps \<le> a \<Longrightarrow> length ps \<le> b \<Longrightarrow>
   copy_range (ps @ xs) a b ys = map_ok (append ps) (copy_range xs (a - length ps) (b - length ps) ys)"
  by (auto simp: copy_range_def)

lemma write_raw_0:
  "length ys \<le> length xs \<Longrightarrow> write_raw xs 0 ys = Ok (ys @ drop (length ys) xs)"
  by (simp add: write_raw_def)

lemma write_raw_append:
  "length ps \<le> a \<Longrightarrow>
   write_raw (ps @ xs) a ys = map_ok (append ps) (write_raw xs (a - length ps) ys)"
  by (auto simp: write_raw_def add.commute)

lemma store_append:
  "length ps \<le> i \<Longrightarrow> store (ps @ xs) i v = map_ok (append ps) (store xs (i - length ps) v)"
  by (auto simp: store_def list_update_append)

lemma store_append1:
  "i < length ps \<Longrightarrow> store (ps @ xs) i v = Ok (ps[i := v] @ xs)"
  by (simp add: store_def list_update_append)

lemma copy_range_length:
  "copy_range xs a b ys = Ok zs \<Longrightarrow> length zs = length xs"
  by (auto simp: copy_range_def split: if_splits)

lemma write_raw_length:
  "write_raw xs off ys = Ok zs \<Longrightarrow> length zs = length xs"
  by (auto simp: write_raw_def split: if_splits)

lemma store_length: "store xs i v = Ok zs \<Longrightarrow> length zs = length xs"
  by (auto simp: store_def split: if_splits)

lemma take_drop_4: "n + 4 \<le> length xs \<Longrightarrow> take 4 (drop n xs) = [xs ! n, xs ! (n + 1), xs ! (n + 2), xs ! (n + 3)]"
  using Cons_nth_drop_Suc [of n xs] Cons_nth_drop_Suc [of "n + 1" xs]
    Cons_nth_drop_Suc [of "n + 2" xs] Cons_nth_drop_Suc [of "n + 3" xs]
  by (simp add: take_Cons' eval_nat_numeral flip: Cons_nth_drop_Suc)

lemma take_drop_2: "n + 2 \<le> length xs \<Longrightarrow> take 2 (drop n xs) = [xs ! n, xs ! (n + 1)]"
  using Cons_nth_drop_Suc [of n xs] Cons_nth_drop_Suc [of "n + 1" xs]
  by (simp add: take_Cons' flip: Cons_nth_drop_Suc)

lemma take_4: "4 \<le> length xs \<Longrightarrow> take 4 xs = [xs ! 0, xs ! 1, xs ! 2, xs ! 3]"
  using take_drop_4 [of 0 xs] by (simp add: eval_nat_numeral)

section \<open>Hexadecimal text of the error messages\<close>

text \<open>\<open>{:#x}\<close> of the formatting macros: \<open>0x\<close> and the lower-case digits, no padding.\<close>

definition hex_digit :: "nat \<Rightarrow> char" where
  "hex_digit n = (''0123456789abcdef'' ! (n mod 16))"

fun hex_digits :: "nat \<Rightarrow> string" where
  "hex_digits n = (if n < 16 then [hex_digit n] else hex_digits (n div 16) @ [hex_digit n])"

declare hex_digits.simps [simp del]

definition show_hex :: "u32 \<Rightarrow> string" where
  "show_hex w = ''0x'' @ hex_digits (unat w)"

end
