(* ===== verification/Byte_Order.thy ===== *)
theory Byte_Order
  imports Prelude
begin

text \<open>
  Byte order. \<open>to_le_bytes\<close>, \<open>to_be_bytes\<close>, \<open>from_le_bytes\<close> and \<open>from_be_bytes\<close> of
  the standard library on 16 and 32 bits, and the \<open>to_be\<close>/\<open>from_be\<close> of a value kept in
  a packed struct: on the little-endian targets of the program both swap the bytes, and a
  field of a \<open>repr(C, packed)\<close> struct lies in memory in native (little-endian) order.
\<close>

section \<open>16 bit\<close>

definition u16_to_le_bytes :: "u16 \<Rightarrow> u8 list" where
  "u16_to_le_bytes w = [ucast w, ucast (drop_bit 8 w)]"

definition u16_to_be_bytes :: "u16 \<Rightarrow> u8 list" where
  "u16_to_be_bytes w = [ucast (drop_bit 8 w), ucast w]"

definition u16_from_be :: "u8 \<Rightarrow> u8 \<Rightarrow> u16" where
  "u16_from_be a b = push_bit 8 (ucast a) OR ucast b"

definition u16_from_le :: "u8 \<Rightarrow> u8 \<Rightarrow> u16" where
  "u16_from_le a b = u16_from_be b a"

definition u16_swap :: "u16 \<Rightarrow> u16" where
  "u16_swap w = u16_from_be (ucast w) (ucast (drop_bit 8 w))"

section \<open>32 bit\<close>

definition u32_to_le_bytes :: "u32 \<Rightarrow> u8 list" where
  "u32_to_le_bytes w =
     [ucast w, ucast (drop_bit 8 w), ucast (drop_bit 16 w), ucast (drop_bit 24 w)]"

definition u32_to_be_bytes :: "u32 \<Rightarrow> u8 list" where
  "u32_to_be_bytes w =
     [ucast (drop_bit 24 w), ucast (drop_bit 16 w), ucast (drop_bit 8 w), ucast w]"

definition u32_from_be :: "u8 \<Rightarrow> u8 \<Rightarrow> u8 \<Rightarrow> u8 \<Rightarrow> u32" where
  "u32_from_be a b c d =
     push_bit 24 (ucast a) OR push_bit 16 (ucast b) OR push_bit 8 (ucast c) OR ucast d"

definition u32_from_le :: "u8 \<Rightarrow> u8 \<Rightarrow> u8 \<Rightarrow> u8 \<Rightarrow> u32" where
  "u32_from_le a b c d = u32_from_be d c b a"

definition u32_swap :: "u32 \<Rightarrow> u32" where
  "u32_swap w =
     u32_from_be (ucast w) (ucast (drop_bit 8 w)) (ucast (drop_bit 16 w)) (ucast (drop_bit 24 w))"

text \<open>
  \<open>to_be\<close> and \<open>from_be\<close> on a little-endian target, and the bytes of a native field.
\<close>

abbreviation u16_to_be :: "u16 \<Rightarrow> u16" where "u16_to_be \<equiv> u16_swap"
abbreviation u16_of_be :: "u16 \<Rightarrow> u16" where "u16_of_be \<equiv> u16_swap"
abbreviation u32_to_be :: "u32 \<Rightarrow> u32" where "u32_to_be \<equiv> u32_swap"
abbreviation u32_of_be :: "u32 \<Rightarrow> u32" where "u32_of_be \<equiv> u32_swap"
abbreviation u16_to_ne_bytes :: "u16 \<Rightarrow> u8 list" where "u16_to_ne_bytes \<equiv> u16_to_le_bytes"
abbreviation u32_to_ne_bytes :: "u32 \<Rightarrow> u8 list" where "u32_to_ne_bytes \<equiv> u32_to_le_bytes"

section \<open>Reading from a slice\<close>

text \<open>
  \<open>u32::from_be_bytes(s.try_into().unwrap())\<close>: the conversion to \<open>[u8; 4]\<close> panics
  unless the slice has four bytes.
\<close>

definition u32_of_be_slice :: "u8 list \<Rightarrow> u32 outcome" where
  "u32_of_be_slice s = (case s of [a, b, c, d] \<Rightarrow> Ok (u32_from_be a b c d) | _ \<Rightarrow> Panic)"

definition u32_of_le_slice :: "u8 list \<Rightarrow> u32 outcome" where
  "u32_of_le_slice s = (case s of [a, b, c, d] \<Rightarrow> Ok (u32_from_le a b c d) | _ \<Rightarrow> Panic)"

section \<open>Laws\<close>

lemma length_bytes [simp]:
  "length (u16_to_le_bytes w) = 2" "length (u16_to_be_bytes w) = 2"
  "length (u32_to_le_bytes v) = 4" "length (u32_to_be_bytes v) = 4"
  by (simp_all add: u16_to_le_bytes_def u16_to_be_bytes_def u32_to_le_bytes_def u32_to_be_bytes_def)

lemma u16_from_be_parts [simp]: "u16_from_be (ucast (drop_bit 8 w)) (ucast w) = w"
  unfolding u16_from_be_def by (rule bit_word_eqI) (auto simp: bit_simps)

lemma u32_from_be_parts [simp]:
  "u32_from_be (ucast (drop_bit 24 w)) (ucast (drop_bit 16 w)) (ucast (drop_bit 8 w)) (ucast w) = w"
proof (rule bit_word_eqI)
  fix n assume n: "n < LENGTH(32)"
  consider "n < 8" | "8 \<le> n" "n < 16" | "16 \<le> n" "n < 24" | "24 \<le> n"
    by linarith
  then show "bit (u32_from_be (ucast (drop_bit 24 w)) (ucast (drop_bit 16 w))
      (ucast (drop_bit 8 w)) (ucast w)) n = bit w n"
    using n unfolding u32_from_be_def by cases (auto simp: bit_simps)
qed

lemma u16_parts_from_be [simp]:
  "ucast (drop_bit 8 (u16_from_be a b)) = a" "ucast (u16_from_be a b) = b"
  unfolding u16_from_be_def by (rule bit_word_eqI; auto simp: bit_simps dest: bit_imp_le_length)+

lemma u32_parts_from_be [simp]:
  "ucast (drop_bit 24 (u32_from_be a b c d)) = a"
  "ucast (drop_bit 16 (u32_from_be a b c d)) = b"
  "ucast (drop_bit 8 (u32_from_be a b c d)) = c"
  "ucast (u32_from_be a b c d) = d"
  unfolding u32_from_be_def by (rule bit_word_eqI; auto simp: bit_simps dest: bit_imp_le_length)+

lemma u16_swap_swap [simp]: "u16_swap (u16_swap w) = w"
  by (simp add: u16_swap_def)

lemma u32_swap_swap [simp]: "u32_swap (u32_swap w) = w"
  by (simp add: u32_swap_def)

text \<open>A swapped field lies in memory in network order.\<close>

lemma ne_bytes_to_be [simp]:
  "u16_to_le_bytes (u16_swap w) = u16_to_be_bytes w"
  "u32_to_le_bytes (u32_swap v) = u32_to_be_bytes v"
  by (simp_all add: u16_to_le_bytes_def u16_to_be_bytes_def u16_swap_def
      u32_to_le_bytes_def u32_to_be_bytes_def u32_swap_def)

lemma u16_swap_from [simp]:
  "u16_swap (u16_from_le a b) = u16_from_be a b"
  by (simp add: u16_swap_def u16_from_le_def)

lemma u32_swap_from [simp]:
  "u32_swap (u32_from_le a b c d) = u32_from_be a b c d"
  by (simp add: u32_swap_def u32_from_le_def)

lemma u32_of_be_slice_bytes [simp]: "u32_of_be_slice (u32_to_be_bytes w) = Ok w"
  by (simp add: u32_of_be_slice_def u32_to_be_bytes_def)

lemma u32_of_le_slice_bytes [simp]: "u32_of_le_slice (u32_to_le_bytes w) = Ok w"
  by (simp add: u32_of_le_slice_def u32_to_le_bytes_def u32_from_le_def)

lemma length_4_cases: "length s = 4 \<longleftrightarrow> (\<exists>a b c d. s = [a, b, c, d])"
  by (auto simp: length_Suc_conv eval_nat_numeral)

lemma u32_of_be_slice_ok: "length s = 4 \<Longrightarrow> \<exists>w. u32_of_be_slice s = Ok w"
  by (auto simp: length_4_cases u32_of_be_slice_def)

lemma u32_of_le_slice_ok: "length s = 4 \<Longrightarrow> \<exists>w. u32_of_le_slice s = Ok w"
  by (auto simp: length_4_cases u32_of_le_slice_def)

lemma u32_bytes_inverse:
  "u32_to_be_bytes (u32_from_be a b c d) = [a, b, c, d]"
  "u32_to_le_bytes (u32_from_le a b c d) = [a, b, c, d]"
  by (simp_all add: u32_to_be_bytes_def u32_to_le_bytes_def u32_from_le_def)

lemma unat_u8_less: "unat (a :: u8) < 256"
  using unsigned_less [where ?'a = nat and w = a] by simp

lemma unat_u16_less: "unat (a :: u16) < 65536"
  using unsigned_less [where ?'a = nat and w = a] by simp

lemma unat_u32_less: "unat (a :: u32) < 4294967296"
  using unsigned_less [where ?'a = nat and w = a] by simp

lemma unat_u8_up [simp]: "unat (ucast (a :: u8) :: u16) = unat a" "unat (ucast (a :: u8) :: u32) = unat a"
  using unat_u8_less [of a] by (simp_all add: unsigned_ucast_eq take_bit_nat_eq_self)

lemma unat_u16_up [simp]: "unat (ucast (a :: u16) :: u32) = unat a"
  using unat_u16_less [of a] by (simp add: unsigned_ucast_eq take_bit_nat_eq_self)

lemma unat_u16_from_be: "unat (u16_from_be a b) = 256 * unat a + unat b"
proof -
  have "u16_from_be a b = push_bit 8 (ucast a) + ucast b"
    unfolding u16_from_be_def
    by (rule disjunctive_add [symmetric]) (auto simp: bit_simps dest: bit_imp_le_length)
  then show ?thesis
    using unat_u8_less [of a] unat_u8_less [of b]
    by (simp add: push_bit_eq_mult unat_word_ariths)
qed

lemma u16_from_be_inject: "u16_from_be a b = u16_from_be c d \<longleftrightarrow> a = c \<and> b = d"
  by (metis u16_parts_from_be)

lemma u32_from_be_inject:
  "u32_from_be a b c d = u32_from_be a' b' c' d' \<longleftrightarrow> a = a' \<and> b = b' \<and> c = c' \<and> d = d'"
  by (metis u32_parts_from_be)

lemma u32_from_be_eq_iff: "u32_from_be a b c d = w \<longleftrightarrow> [a, b, c, d] = u32_to_be_bytes w"
  by (auto simp: u32_bytes_inverse) (simp add: u32_to_be_bytes_def)

lemma u16_from_be_eq_iff: "u16_from_be a b = w \<longleftrightarrow> [a, b] = u16_to_be_bytes w"
  by (auto simp: u16_to_be_bytes_def)

end
