(* ===== verification/Net_Types.thy ===== *)
theory Net_Types
  imports Byte_Order
begin

text \<open>
  \<^verbatim>\<open>src/net_types.rs\<close>: the constants of the link and DHCP layers, the packed structs
  with their memory layout, MAC addresses and the DHCP lease. A \<open>[u8; 6]\<close> is the
  datatype \<open>mac\<close>, so its length needs no invariant; the longer arrays of \<open>DhcpPacket\<close> are
  lists with the length predicate \<open>dhcp_packet_wf\<close>. The locale \<open>packed_struct\<close> states what
  the \<open>unsafe\<close> reads and writes rely on: the size of the layout and that reading inverts
  writing; it is interpreted on the three structs.
\<close>

section \<open>Constants\<close>

definition RNDIS_BUF_SIZE :: nat where [simp]: "RNDIS_BUF_SIZE = 32768"
definition ETH_BUF_SIZE :: nat where [simp]: "ETH_BUF_SIZE = 2048"

definition ARP_ETHERTYPE :: u16 where [simp]: "ARP_ETHERTYPE = 0x0806"
definition ARP_HW_ETHERNET :: u16 where [simp]: "ARP_HW_ETHERNET = 1"
definition ARP_OP_REQUEST :: u16 where [simp]: "ARP_OP_REQUEST = 1"
definition ARP_OP_REPLY :: u16 where [simp]: "ARP_OP_REPLY = 2"

definition DHCP_SERVER_PORT :: u16 where [simp]: "DHCP_SERVER_PORT = 67"
definition DHCP_CLIENT_PORT :: u16 where [simp]: "DHCP_CLIENT_PORT = 68"
definition DHCP_MAGIC_COOKIE :: u32 where [simp]: "DHCP_MAGIC_COOKIE = 0x63825363"

definition DEFAULT_STATIC_IP :: string where "DEFAULT_STATIC_IP = ''192.168.42.100''"
definition DEFAULT_GATEWAY :: string where "DEFAULT_GATEWAY = ''192.168.42.129''"
definition DEFAULT_NETMASK :: string where "DEFAULT_NETMASK = ''255.255.255.0''"
definition DEFAULT_DNS1 :: string where "DEFAULT_DNS1 = ''8.8.8.8''"
definition DEFAULT_DNS2 :: string where "DEFAULT_DNS2 = ''8.8.4.4''"

section \<open>MAC addresses\<close>

datatype mac = Mac u8 u8 u8 u8 u8 u8

fun mac_bytes :: "mac \<Rightarrow> u8 list" where
  "mac_bytes (Mac a b c d e f) = [a, b, c, d, e, f]"

definition mac_of_bytes :: "u8 list \<Rightarrow> mac" where
  "mac_of_bytes b = Mac (b ! 0) (b ! 1) (b ! 2) (b ! 3) (b ! 4) (b ! 5)"

definition mac_broadcast :: mac where
  "mac_broadcast = Mac 0xFF 0xFF 0xFF 0xFF 0xFF 0xFF"

definition mac_is_broadcast :: "mac \<Rightarrow> bool" where
  "mac_is_broadcast m = list_all (\<lambda>b. b = 0xFF) (mac_bytes m)"

text \<open>\<open>{:02x}\<close>: two lower-case hexadecimal digits.\<close>

definition show_02x :: "u8 \<Rightarrow> string" where
  "show_02x b = [hex_digit (unat b div 16), hex_digit (unat b)]"

fun mac_fmt :: "mac \<Rightarrow> string" where
  "mac_fmt (Mac a b c d e f) =
     show_02x a @ '':'' @ show_02x b @ '':'' @ show_02x c @ '':'' @
     show_02x d @ '':'' @ show_02x e @ '':'' @ show_02x f"

lemma length_mac_bytes [simp]: "length (mac_bytes m) = 6"
  by (cases m) simp

lemma mac_of_bytes_append [simp]: "mac_of_bytes (mac_bytes m @ r) = m"
  by (cases m) (simp add: mac_of_bytes_def)

lemma mac_of_bytes_bytes [simp]: "mac_of_bytes (mac_bytes m) = m"
  using mac_of_bytes_append [of m "[]"] by simp

lemma length_6_cases: "length s = 6 \<longleftrightarrow> (\<exists>a b c d e f. s = [a, b, c, d, e, f])"
  by (auto simp: length_Suc_conv eval_nat_numeral)

lemma mac_bytes_of_bytes: "length s = 6 \<Longrightarrow> mac_bytes (mac_of_bytes s) = s"
  by (auto simp: length_6_cases mac_of_bytes_def)

lemma mac_bytes_inject [simp]: "mac_bytes m = mac_bytes n \<longleftrightarrow> m = n"
  by (metis mac_of_bytes_bytes)

lemma mac_is_broadcast_iff: "mac_is_broadcast m \<longleftrightarrow> m = mac_broadcast"
  by (cases m) (auto simp: mac_is_broadcast_def mac_broadcast_def)

section \<open>Packed structs\<close>

record eth_hdr =
  eth_dst :: mac
  eth_src :: mac
  eth_type :: u16

record arp_packet =
  hw_type :: u16
  proto_type :: u16
  hw_len :: u8
  proto_len :: u8
  arp_opcode :: u16
  sender_mac :: mac
  sender_ip :: u32
  target_mac :: mac
  target_ip :: u32

record dhcp_packet =
  dhcp_op :: u8
  htype :: u8
  hlen :: u8
  hops :: u8
  dhcp_xid :: u32
  secs :: u16
  dhcp_flags :: u16
  ciaddr :: u32
  yiaddr :: u32
  siaddr :: u32
  giaddr :: u32
  chaddr :: "u8 list"
  sname :: "u8 list"
  boot_file :: "u8 list"
  dhcp_magic :: u32
  dhcp_options :: "u8 list"

definition eth_hdr_size :: nat where [simp]: "eth_hdr_size = 14"
definition arp_packet_size :: nat where [simp]: "arp_packet_size = 28"
definition dhcp_packet_size :: nat where [simp]: "dhcp_packet_size = 552"

text \<open>\<open>repr(C, packed)\<close>: the fields in order, without padding, integers in native order.\<close>

definition eth_hdr_bytes :: "eth_hdr \<Rightarrow> u8 list" where
  "eth_hdr_bytes h = mac_bytes (eth_dst h) @ mac_bytes (eth_src h) @ u16_to_ne_bytes (eth_type h)"

definition eth_hdr_of_bytes :: "u8 list \<Rightarrow> eth_hdr" where
  "eth_hdr_of_bytes b =
     \<lparr>eth_dst = mac_of_bytes b, eth_src = mac_of_bytes (drop 6 b),
      eth_type = u16_from_le (b ! 12) (b ! 13)\<rparr>"

definition arp_packet_bytes :: "arp_packet \<Rightarrow> u8 list" where
  "arp_packet_bytes p =
     u16_to_ne_bytes (hw_type p) @ u16_to_ne_bytes (proto_type p) @ [hw_len p, proto_len p] @
     u16_to_ne_bytes (arp_opcode p) @ mac_bytes (sender_mac p) @ u32_to_ne_bytes (sender_ip p) @
     mac_bytes (target_mac p) @ u32_to_ne_bytes (target_ip p)"

definition arp_packet_of_bytes :: "u8 list \<Rightarrow> arp_packet" where
  "arp_packet_of_bytes b =
     \<lparr>hw_type = u16_from_le (b ! 0) (b ! 1), proto_type = u16_from_le (b ! 2) (b ! 3),
      hw_len = b ! 4, proto_len = b ! 5, arp_opcode = u16_from_le (b ! 6) (b ! 7),
      sender_mac = mac_of_bytes (drop 8 b),
      sender_ip = u32_from_le (b ! 14) (b ! 15) (b ! 16) (b ! 17),
      target_mac = mac_of_bytes (drop 18 b),
      target_ip = u32_from_le (b ! 24) (b ! 25) (b ! 26) (b ! 27)\<rparr>"

definition dhcp_packet_wf :: "dhcp_packet \<Rightarrow> bool" where
  "dhcp_packet_wf p \<longleftrightarrow>
     length (chaddr p) = 16 \<and> length (sname p) = 64 \<and> length (boot_file p) = 128 \<and>
     length (dhcp_options p) = 312"

definition dhcp_packet_bytes :: "dhcp_packet \<Rightarrow> u8 list" where
  "dhcp_packet_bytes p =
     [dhcp_op p, htype p, hlen p, hops p] @ u32_to_ne_bytes (dhcp_xid p) @
     u16_to_ne_bytes (secs p) @ u16_to_ne_bytes (dhcp_flags p) @
     u32_to_ne_bytes (ciaddr p) @ u32_to_ne_bytes (yiaddr p) @
     u32_to_ne_bytes (siaddr p) @ u32_to_ne_bytes (giaddr p) @
     chaddr p @ sname p @ boot_file p @ u32_to_ne_bytes (dhcp_magic p) @ dhcp_options p"

definition dhcp_packet_of_bytes :: "u8 list \<Rightarrow> dhcp_packet" where
  "dhcp_packet_of_bytes b =
     \<lparr>dhcp_op = b ! 0, htype = b ! 1, hlen = b ! 2, hops = b ! 3,
      dhcp_xid = u32_from_le (b ! 4) (b ! 5) (b ! 6) (b ! 7),
      secs = u16_from_le (b ! 8) (b ! 9), dhcp_flags = u16_from_le (b ! 10) (b ! 11),
      ciaddr = u32_from_le (b ! 12) (b ! 13) (b ! 14) (b ! 15),
      yiaddr = u32_from_le (b ! 16) (b ! 17) (b ! 18) (b ! 19),
      siaddr = u32_from_le (b ! 20) (b ! 21) (b ! 22) (b ! 23),
      giaddr = u32_from_le (b ! 24) (b ! 25) (b ! 26) (b ! 27),
      chaddr = take 16 (drop 28 b), sname = take 64 (drop 44 b),
      boot_file = take 128 (drop 108 b),
      dhcp_magic = u32_from_le (b ! 236) (b ! 237) (b ! 238) (b ! 239),
      dhcp_options = take 312 (drop 240 b)\<rparr>"

text \<open>\<open>impl Default for DhcpPacket\<close>: all bytes zero.\<close>

definition dhcp_packet_default :: dhcp_packet where
  "dhcp_packet_default = dhcp_packet_of_bytes (replicate 552 0)"

record dhcp_lease =
  lease_ip :: u32
  lease_gateway :: u32
  lease_netmask :: u32
  lease_dns1 :: u32
  lease_dns2 :: u32

section \<open>The contract of a packed struct\<close>

locale packed_struct =
  fixes size_of :: nat
    and to_bytes :: "'s \<Rightarrow> u8 list"
    and of_bytes :: "u8 list \<Rightarrow> 's"
    and wf :: "'s \<Rightarrow> bool"
  assumes length_to_bytes: "wf x \<Longrightarrow> length (to_bytes x) = size_of"
    and of_to_bytes: "wf x \<Longrightarrow> of_bytes (to_bytes x @ r) = x"
begin

lemma to_bytes_inject: "wf x \<Longrightarrow> wf y \<Longrightarrow> to_bytes x = to_bytes y \<Longrightarrow> x = y"
  by (metis of_to_bytes)

lemma write_ok:
  "wf x \<Longrightarrow> off + size_of \<le> length buf \<Longrightarrow>
   write_raw buf off (to_bytes x) = Ok (take off buf @ to_bytes x @ drop (off + size_of) buf)"
  by (simp add: write_raw_def length_to_bytes)

lemma write_outside:
  "wf x \<Longrightarrow> length buf < off + size_of \<Longrightarrow> write_raw buf off (to_bytes x) = Undefined"
  by (simp add: write_raw_def length_to_bytes)

lemma read_back:
  assumes "wf x" and "write_raw buf off (to_bytes x) = Ok buf'"
  shows "map_ok of_bytes (read_raw buf' off size_of) = Ok x"
proof -
  from assms have len: "off + size_of \<le> length buf"
    and buf': "buf' = take off buf @ to_bytes x @ drop (off + size_of) buf"
    by (auto simp: write_raw_def length_to_bytes split: if_splits)
  from len have "read_raw buf' off size_of = Ok (to_bytes x)"
    by (simp add: buf' read_raw_def length_to_bytes assms(1))
  with of_to_bytes [OF assms(1), of "[]"] show ?thesis by simp
qed

end

lemma nth_u16_le [simp]:
  "(u16_to_le_bytes w @ r) ! 0 = ucast w" "(u16_to_le_bytes w @ r) ! Suc 0 = ucast (drop_bit 8 w)"
  by (simp_all add: u16_to_le_bytes_def)

interpretation eth_layout: packed_struct eth_hdr_size eth_hdr_bytes eth_hdr_of_bytes "\<lambda>_. True"
proof unfold_locales
  show "length (eth_hdr_bytes h) = eth_hdr_size" for h
    by (simp add: eth_hdr_bytes_def)
  show "eth_hdr_of_bytes (eth_hdr_bytes h @ r) = h" for h r
    by (cases "eth_dst h"; cases "eth_src h")
      (simp add: eth_hdr_bytes_def eth_hdr_of_bytes_def mac_of_bytes_def u16_from_le_def
        u16_to_le_bytes_def)
qed

interpretation arp_layout: packed_struct arp_packet_size arp_packet_bytes arp_packet_of_bytes "\<lambda>_. True"
proof unfold_locales
  show "length (arp_packet_bytes p) = arp_packet_size" for p
    by (simp add: arp_packet_bytes_def)
  show "arp_packet_of_bytes (arp_packet_bytes p @ r) = p" for p r
    by (cases "sender_mac p"; cases "target_mac p")
      (simp add: arp_packet_bytes_def arp_packet_of_bytes_def mac_of_bytes_def u16_from_le_def
        u16_to_le_bytes_def u32_from_le_def u32_to_le_bytes_def)
qed

lemma dhcp_of_to_bytes:
  assumes "dhcp_packet_wf p"
  shows "dhcp_packet_of_bytes (dhcp_packet_bytes p @ r) = p"
  using assms
  by (simp add: dhcp_packet_wf_def dhcp_packet_bytes_def dhcp_packet_of_bytes_def nth_append
      u16_from_le_def u16_to_le_bytes_def u32_from_le_def u32_to_le_bytes_def)

interpretation dhcp_layout:
  packed_struct dhcp_packet_size dhcp_packet_bytes dhcp_packet_of_bytes dhcp_packet_wf
  by unfold_locales (simp_all add: dhcp_of_to_bytes, simp add: dhcp_packet_wf_def dhcp_packet_bytes_def)

text \<open>An all-zero header is well formed, and its bytes are zero.\<close>

lemma dhcp_packet_default_wf: "dhcp_packet_wf dhcp_packet_default"
  by (simp add: dhcp_packet_default_def dhcp_packet_of_bytes_def dhcp_packet_wf_def)

end
