(* ===== verification/Frame.thy ===== *)
theory Frame
  imports Net_Types
begin

text \<open>
  \<^verbatim>\<open>src/frame.rs\<close>: the translation between \<open>utun\<close> packets (a 4-byte address family in
  network order, then the IP packet) and Ethernet frames. A result of \<open>Ok (0, buf)\<close> is
  the code's ``not translated''. The lemmas give both directions in closed form; the
  properties are that neither ever faults and that they invert each other.
\<close>

definition AF_INET :: u32 where [simp]: "AF_INET = 2"
definition AF_INET6 :: u32 where [simp]: "AF_INET6 = 30"

definition ip_to_eth ::
  "u8 list \<Rightarrow> u8 list \<Rightarrow> mac \<Rightarrow> mac \<Rightarrow> (nat \<times> u8 list) outcome" where
  "ip_to_eth utun_pkt eth_buf src_mac gateway_mac =
     (if length utun_pkt < 5 then Ok (0, eth_buf)
      else
        and_then (subslice_to utun_pkt 4) (\<lambda>af_raw.
        and_then (u32_of_be_slice af_raw) (\<lambda>af.
        let ip_len = length utun_pkt - 4; total = eth_hdr_size + ip_len in
        if total > length eth_buf then Ok (0, eth_buf)
        else
          and_then
            (if af = AF_INET then Ok (Some (0x0800 :: u16))
             else if af = AF_INET6 then Ok (Some 0x86DD)
             else and_then (index utun_pkt 4) (\<lambda>b.
               let ver = drop_bit 4 b in
               if ver = 4 then Ok (Some 0x0800)
               else if ver = 6 then Ok (Some 0x86DD)
               else Ok None)) (\<lambda>ethertype.
          case ethertype of
            None \<Rightarrow> Ok (0, eth_buf)
          | Some t \<Rightarrow>
              let eth = \<lparr>eth_dst = gateway_mac, eth_src = src_mac, eth_type = u16_to_be t\<rparr> in
              and_then (write_raw eth_buf 0 (eth_hdr_bytes eth)) (\<lambda>eth_buf.
              and_then (subslice_from utun_pkt 4) (\<lambda>ip.
              and_then (copy_range eth_buf eth_hdr_size total ip) (\<lambda>eth_buf.
              Ok (total, eth_buf))))))))"

definition eth_to_utun :: "u8 list \<Rightarrow> u8 list \<Rightarrow> (nat \<times> u8 list) outcome" where
  "eth_to_utun eth_frame utun_buf =
     (if length eth_frame < eth_hdr_size then Ok (0, utun_buf)
      else
        and_then (map_ok eth_hdr_of_bytes (read_raw eth_frame 0 eth_hdr_size)) (\<lambda>eth.
        let ethertype = u16_of_be (eth_type eth);
            ip_len = length eth_frame - eth_hdr_size;
            total = 4 + ip_len in
        if total > length utun_buf then Ok (0, utun_buf)
        else case (if ethertype = 0x0800 then Some (u32_to_be AF_INET)
                   else if ethertype = 0x86DD then Some (u32_to_be AF_INET6)
                   else None) of
            None \<Rightarrow> Ok (0, utun_buf)
          | Some af_nbo \<Rightarrow>
              and_then (copy_range utun_buf 0 4 (u32_to_ne_bytes af_nbo)) (\<lambda>utun_buf.
              and_then (subslice_from eth_frame eth_hdr_size) (\<lambda>ip.
              and_then (copy_range utun_buf 4 total ip) (\<lambda>utun_buf.
              Ok (total, utun_buf))))))"

section \<open>Closed forms\<close>

text \<open>
  How the code classifies a packet: by its address family, else by the version nibble of
  the IP header; and the family a frame's ethertype stands for.
\<close>

definition ethertype_for :: "u32 \<Rightarrow> u8 \<Rightarrow> u16 option" where
  "ethertype_for af b =
     (if af = AF_INET then Some 0x0800 else if af = AF_INET6 then Some 0x86DD
      else if drop_bit 4 b = 4 then Some 0x0800 else if drop_bit 4 b = 6 then Some 0x86DD
      else None)"

definition family_for :: "u16 \<Rightarrow> u32 option" where
  "family_for t = (if t = 0x0800 then Some AF_INET else if t = 0x86DD then Some AF_INET6 else None)"

text \<open>An Ethernet frame and a tunnel packet, as bytes.\<close>

definition eth_frame_bytes :: "mac \<Rightarrow> mac \<Rightarrow> u16 \<Rightarrow> u8 list \<Rightarrow> u8 list" where
  "eth_frame_bytes dst src t payload = mac_bytes dst @ mac_bytes src @ u16_to_be_bytes t @ payload"

definition utun_bytes :: "u32 \<Rightarrow> u8 list \<Rightarrow> u8 list" where
  "utun_bytes af ip = u32_to_be_bytes af @ ip"

lemma length_frame_bytes [simp]:
  "length (eth_frame_bytes dst src t payload) = 14 + length payload"
  "length (utun_bytes af ip) = 4 + length ip"
  by (simp_all add: eth_frame_bytes_def utun_bytes_def)

lemma drop_eth_frame [simp]: "drop 14 (eth_frame_bytes dst src t payload) = payload"
  by (simp add: eth_frame_bytes_def)

lemma eth_hdr_bytes_be:
  "eth_hdr_bytes \<lparr>eth_dst = d, eth_src = s, eth_type = u16_swap t\<rparr> @ p = eth_frame_bytes d s t p"
  by (simp add: eth_hdr_bytes_def eth_frame_bytes_def)

lemma utun_cases:
  assumes "5 \<le> length pkt"
  obtains af b ip where "pkt = utun_bytes af (b # ip)"
proof -
  obtain x0 x1 x2 x3 b ip where "pkt = [x0, x1, x2, x3] @ b # ip"
    using assms by (auto simp: Suc_le_length_iff numeral_eq_Suc)
  then have "pkt = utun_bytes (u32_from_be x0 x1 x2 x3) (b # ip)"
    by (simp add: utun_bytes_def u32_bytes_inverse)
  then show thesis by (rule that)
qed

lemma ip_to_eth_short: "length pkt < 5 \<Longrightarrow> ip_to_eth pkt buf src gw = Ok (0, buf)"
  by (simp add: ip_to_eth_def)

lemma ip_to_eth_form:
  "ip_to_eth (utun_bytes af (b # ip)) buf src gw =
    (let n = 15 + length ip in
     if n > length buf then Ok (0, buf)
     else case ethertype_for af b of
         None \<Rightarrow> Ok (0, buf)
       | Some t \<Rightarrow> Ok (n, eth_frame_bytes gw src t (b # ip) @ drop n buf))"
proof -
  have hd: "subslice_to (utun_bytes af (b # ip)) 4 = Ok (u32_to_be_bytes af)"
    "index (utun_bytes af (b # ip)) 4 = Ok b"
    "subslice_from (utun_bytes af (b # ip)) 4 = Ok (b # ip)"
    by (simp_all add: utun_bytes_def nth_append)
  show ?thesis
  proof (cases "15 + length ip > length buf")
    case True
    then show ?thesis by (simp add: ip_to_eth_def hd Let_def)
  next
    case False
    have "and_then (write_raw buf 0 (eth_hdr_bytes \<lparr>eth_dst = gw, eth_src = src, eth_type = u16_swap t\<rparr>))
        (\<lambda>eb. and_then (copy_range eb 14 (15 + length ip) (b # ip)) (\<lambda>eb. Ok (15 + length ip, eb))) =
        Ok (15 + length ip, eth_frame_bytes gw src t (b # ip) @ drop (15 + length ip) buf)" for t
      using False
      by (simp add: eth_layout.write_ok copy_range_def eth_layout.length_to_bytes
          flip: eth_hdr_bytes_be)
    then show ?thesis
      using False by (simp add: ip_to_eth_def hd Let_def ethertype_for_def)
  qed
qed

lemma eth_cases:
  assumes "14 \<le> length frame"
  obtains dst src t p where "frame = eth_frame_bytes dst src t p"
proof -
  obtain a b c d e f g h i j k l m n p where
    "frame = a # b # c # d # e # f # g # h # i # j # k # l # m # n # p"
    using assms by (auto simp: Suc_le_length_iff numeral_eq_Suc)
  then have "frame = eth_frame_bytes (Mac a b c d e f) (Mac g h i j k l) (u16_from_be m n) p"
    by (simp add: eth_frame_bytes_def u16_to_be_bytes_def)
  then show thesis by (rule that)
qed

lemma eth_hdr_of_frame:
  "read_raw (eth_frame_bytes dst src t p) 0 14 =
     Ok (eth_hdr_bytes \<lparr>eth_dst = dst, eth_src = src, eth_type = u16_swap t\<rparr>)"
  by (simp add: read_raw_def eth_layout.length_to_bytes flip: eth_hdr_bytes_be)

lemma eth_to_utun_short: "length frame < 14 \<Longrightarrow> eth_to_utun frame buf = Ok (0, buf)"
  by (simp add: eth_to_utun_def)

lemma eth_to_utun_form:
  "eth_to_utun (eth_frame_bytes dst src t ip) buf =
    (let n = 4 + length ip in
     if n > length buf then Ok (0, buf)
     else case family_for t of
         None \<Rightarrow> Ok (0, buf)
       | Some af \<Rightarrow> Ok (n, utun_bytes af ip @ drop n buf))"
proof -
  let ?h = "\<lparr>eth_dst = dst, eth_src = src, eth_type = u16_swap t\<rparr>"
  have hd: "map_ok eth_hdr_of_bytes (read_raw (eth_frame_bytes dst src t ip) 0 14) = Ok ?h"
    using eth_layout.of_to_bytes [of ?h "[]"] by (simp add: eth_hdr_of_frame)
  have fill: "and_then (copy_range buf 0 4 (u32_to_le_bytes (u32_swap af)))
      (\<lambda>ub. and_then (copy_range ub 4 (4 + length ip) ip) (\<lambda>ub. Ok (4 + length ip, ub))) =
      Ok (4 + length ip, utun_bytes af ip @ drop (4 + length ip) buf)"
    if "4 + length ip \<le> length buf" for af
    using that by (simp add: copy_range_0 copy_range_append utun_bytes_def add.commute)
  show ?thesis
    using fill by (auto simp: eth_to_utun_def hd Let_def family_for_def)
qed

section \<open>Properties\<close>

text \<open>Either refused with the buffer untouched, or the first \<open>n\<close> bytes rewritten in place.\<close>

definition translated :: "nat \<Rightarrow> u8 list \<Rightarrow> (nat \<times> u8 list) outcome \<Rightarrow> bool" where
  "translated n buf r \<longleftrightarrow>
     r = Ok (0, buf) \<or>
     (\<exists>buf'. r = Ok (n, buf') \<and> n \<le> length buf \<and> length buf' = length buf \<and> drop n buf' = drop n buf)"

lemma translations_ok:
  "translated (10 + length pkt) eth_buf (ip_to_eth pkt eth_buf src gw)"
  "translated (length frame - 10) utun_buf (eth_to_utun frame utun_buf)"
proof -
  show "translated (10 + length pkt) eth_buf (ip_to_eth pkt eth_buf src gw)"
  proof (cases "length pkt < 5")
    case True
    then show ?thesis by (simp add: translated_def ip_to_eth_short)
  next
    case False
    then have "5 \<le> length pkt" by simp
    then obtain af b ip where "pkt = utun_bytes af (b # ip)" by (rule utun_cases)
    then show ?thesis
      by (auto simp: translated_def ip_to_eth_form Let_def split: option.splits)
  qed
  show "translated (length frame - 10) utun_buf (eth_to_utun frame utun_buf)"
  proof (cases "length frame < 14")
    case True
    then show ?thesis by (simp add: translated_def eth_to_utun_short)
  next
    case False
    then have "14 \<le> length frame" by simp
    then obtain dst src t p where "frame = eth_frame_bytes dst src t p" by (rule eth_cases)
    then show ?thesis
      by (auto simp: translated_def eth_to_utun_form Let_def split: option.splits)
  qed
qed

text \<open>
  Claim C25: the two translations are total and bounded: on any packet, frame and buffers they
  return without a fault, the buffer keeps its length, and the result is either 0, with
  the buffer untouched, or the exact length of the translated packet, which fits.
\<close>

theorem translations_total:
  "translated (10 + length pkt) eth_buf (ip_to_eth pkt eth_buf src gw) \<and>
   translated (length frame - 10) utun_buf (eth_to_utun frame utun_buf)"
  by (simp add: translations_ok)

text \<open>
  Claim C26: an IP packet survives the two translations: what \<open>ip_to_eth\<close> puts on the wire for an
  IPv4 or IPv6 packet, \<open>eth_to_utun\<close> turns back into the same tunnel packet, whatever
  the addresses on the frame.
\<close>

theorem frame_roundtrip:
  assumes "af = AF_INET \<or> af = AF_INET6" and "ip \<noteq> []"
    and "14 + length ip \<le> length eth_buf" and "4 + length ip \<le> length utun_buf"
  shows "\<exists>eth_buf' utun_buf'.
    ip_to_eth (utun_bytes af ip) eth_buf src gw = Ok (14 + length ip, eth_buf') \<and>
    eth_to_utun (take (14 + length ip) eth_buf') utun_buf = Ok (4 + length ip, utun_buf') \<and>
    take (4 + length ip) utun_buf' = utun_bytes af ip"
proof -
  obtain b bs where ip: "ip = b # bs" using assms(2) by (cases ip) auto
  obtain t where t: "ethertype_for af b = Some t" "family_for t = Some af"
    using assms(1) by (auto simp: ethertype_for_def family_for_def)
  then show ?thesis
    using assms(3,4) by (simp add: ip ip_to_eth_form eth_to_utun_form Let_def)
qed

theorem frame_roundtrip_witness:
  "\<exists>eth_buf' utun_buf'.
    ip_to_eth (utun_bytes AF_INET [0x45, 0]) (replicate 20 0) mac_broadcast mac_broadcast =
      Ok (16, eth_buf') \<and>
    eth_to_utun (take 16 eth_buf') (replicate 10 0) = Ok (6, utun_buf') \<and>
    take 6 utun_buf' = utun_bytes AF_INET [0x45, 0]"
  using frame_roundtrip [of AF_INET "[0x45, 0]" "replicate 20 0" "replicate 10 0"
      mac_broadcast mac_broadcast] by simp

text \<open>
  A frame that the code sends carries the learned gateway address, the host's own
  address and the ethertype of the packet's family, followed by the packet unchanged; a
  packet of no known family is not sent.
\<close>

theorem ip_to_eth_wire:
  assumes "15 + length ip \<le> length buf"
  shows "ip_to_eth (utun_bytes af (b # ip)) buf src gw =
    (case ethertype_for af b of
       None \<Rightarrow> Ok (0, buf)
     | Some t \<Rightarrow> Ok (15 + length ip,
         mac_bytes gw @ mac_bytes src @ u16_to_be_bytes t @ b # ip @ drop (15 + length ip) buf))"
  using assms by (simp add: ip_to_eth_form eth_frame_bytes_def Let_def split: option.split)

theorem ip_to_eth_wire_witness:
  "ip_to_eth (utun_bytes 7 [0x60]) (replicate 15 0) mac_broadcast mac_broadcast =
    Ok (15, [0xFF, 0xFF, 0xFF, 0xFF, 0xFF, 0xFF, 0xFF, 0xFF, 0xFF, 0xFF, 0xFF, 0xFF, 0x86, 0xDD, 0x60])"
  using ip_to_eth_wire [of "[]" "replicate 15 0" 7 "0x60" mac_broadcast mac_broadcast]
  by (simp add: ethertype_for_def mac_broadcast_def u16_to_be_bytes_def)

end
