(* ===== verification/Rndis.thy ===== *)
theory Rndis
  imports Net_Types
begin

text \<open>
  \<^verbatim>\<open>src/rndis.rs\<close>: the RNDIS messages. The builders write into a caller's buffer and
  return the message length with the buffer and the protocol state; the parsers read a
  device's completion; \<open>rndis_next\<close> is \<open>RndisPacketIter::next\<close>, which cuts a bulk
  transfer into the Ethernet frames it carries. The lemmas give each builder's buffer in
  closed form, show that the iterator neither panics nor loops on any input, and that it
  recovers the frames that \<open>build_data_packet\<close> wrapped.
\<close>

section \<open>Constants\<close>

definition RNDIS_MSG_INIT :: u32 where [simp]: "RNDIS_MSG_INIT = 0x00000002"
definition RNDIS_MSG_INIT_C :: u32 where [simp]: "RNDIS_MSG_INIT_C = 0x80000002"
definition RNDIS_MSG_HALT :: u32 where [simp]: "RNDIS_MSG_HALT = 0x00000003"
definition RNDIS_MSG_QUERY :: u32 where [simp]: "RNDIS_MSG_QUERY = 0x00000004"
definition RNDIS_MSG_QUERY_C :: u32 where [simp]: "RNDIS_MSG_QUERY_C = 0x80000004"
definition RNDIS_MSG_SET :: u32 where [simp]: "RNDIS_MSG_SET = 0x00000005"
definition RNDIS_MSG_SET_C :: u32 where [simp]: "RNDIS_MSG_SET_C = 0x80000005"
definition RNDIS_MSG_KEEPALIVE :: u32 where [simp]: "RNDIS_MSG_KEEPALIVE = 0x00000008"
definition RNDIS_MSG_PACKET :: u32 where [simp]: "RNDIS_MSG_PACKET = 0x00000001"

definition RNDIS_STATUS_SUCCESS :: u32 where [simp]: "RNDIS_STATUS_SUCCESS = 0x00000000"

definition OID_GEN_CURRENT_PACKET_FILTER :: u32 where [simp]: "OID_GEN_CURRENT_PACKET_FILTER = 0x0001010E"
definition OID_802_3_PERMANENT_ADDRESS :: u32 where [simp]: "OID_802_3_PERMANENT_ADDRESS = 0x01010101"
definition OID_802_3_CURRENT_ADDRESS :: u32 where [simp]: "OID_802_3_CURRENT_ADDRESS = 0x01010102"

definition RNDIS_PACKET_TYPE_DIRECTED :: u32 where [simp]: "RNDIS_PACKET_TYPE_DIRECTED = 1"
definition RNDIS_PACKET_TYPE_MULTICAST :: u32 where [simp]: "RNDIS_PACKET_TYPE_MULTICAST = 2"
definition RNDIS_PACKET_TYPE_ALL_MULTICAST :: u32 where [simp]: "RNDIS_PACKET_TYPE_ALL_MULTICAST = 4"
definition RNDIS_PACKET_TYPE_BROADCAST :: u32 where [simp]: "RNDIS_PACKET_TYPE_BROADCAST = 8"

definition RNDIS_MAJOR_VERSION :: u32 where [simp]: "RNDIS_MAJOR_VERSION = 1"
definition RNDIS_MINOR_VERSION :: u32 where [simp]: "RNDIS_MINOR_VERSION = 0"
definition RNDIS_MAX_TRANSFER_SIZE :: u32 where [simp]: "RNDIS_MAX_TRANSFER_SIZE = 0x8000"

section \<open>Little-endian fields of a buffer\<close>

definition read_u32 :: "u8 list \<Rightarrow> nat \<Rightarrow> u32 outcome" where
  "read_u32 buf offset = and_then (subslice buf offset (offset + 4)) u32_of_le_slice"

definition write_u32 :: "u8 list \<Rightarrow> nat \<Rightarrow> u32 \<Rightarrow> u8 list outcome" where
  "write_u32 buf offset val = copy_range buf offset (offset + 4) (u32_to_le_bytes val)"

section \<open>State\<close>

record rndis_state =
  request_id :: u32
  max_transfer_size :: u32
  medium :: u32
  mac_addr :: mac
  link_up :: bool

definition rndis_state_default :: rndis_state where
  "rndis_state_default =
     \<lparr>request_id = 0, max_transfer_size = RNDIS_MAX_TRANSFER_SIZE, medium = 0,
      mac_addr = Mac 0 0 0 0 0 0, link_up = False\<rparr>"

section \<open>Control messages\<close>

definition build_init ::
  "u8 list \<Rightarrow> rndis_state \<Rightarrow> (nat \<times> u8 list \<times> rndis_state) outcome" where
  "build_init buf state = (let msg_size = 24 in
     if length buf < msg_size then Err (BufferTooSmall msg_size (length buf))
     else let state = state\<lparr>request_id := request_id state + 1\<rparr> in
       and_then (write_u32 buf 0 RNDIS_MSG_INIT) (\<lambda>buf.
       and_then (write_u32 buf 4 (of_nat msg_size)) (\<lambda>buf.
       and_then (write_u32 buf 8 (request_id state)) (\<lambda>buf.
       and_then (write_u32 buf 12 RNDIS_MAJOR_VERSION) (\<lambda>buf.
       and_then (write_u32 buf 16 RNDIS_MINOR_VERSION) (\<lambda>buf.
       and_then (write_u32 buf 20 RNDIS_MAX_TRANSFER_SIZE) (\<lambda>buf.
       Ok (msg_size, buf, state))))))))"

definition parse_init_cmplt :: "u8 list \<Rightarrow> rndis_state \<Rightarrow> rndis_state outcome" where
  "parse_init_cmplt buf state =
     (if length buf < 52 then Err (BufferTooSmall 52 (length buf))
      else
        and_then (read_u32 buf 0) (\<lambda>msg_type.
        and_then (read_u32 buf 12) (\<lambda>status.
        if msg_type \<noteq> RNDIS_MSG_INIT_C
        then Err (Rndis_Error (''expected INIT_C, got '' @ show_hex msg_type))
        else if status \<noteq> RNDIS_STATUS_SUCCESS
        then Err (Rndis_Error (''INIT_C status '' @ show_hex status))
        else
          and_then (read_u32 buf 40) (\<lambda>mts.
          and_then (read_u32 buf 28) (\<lambda>med.
          Ok (state\<lparr>max_transfer_size := mts, medium := med\<rparr>))))))"

definition build_query ::
  "u8 list \<Rightarrow> u32 \<Rightarrow> rndis_state \<Rightarrow> (nat \<times> u8 list \<times> rndis_state) outcome" where
  "build_query buf oid state = (let msg_size = 28 in
     if length buf < msg_size then Err (BufferTooSmall msg_size (length buf))
     else let state = state\<lparr>request_id := request_id state + 1\<rparr> in
       and_then (write_u32 buf 0 RNDIS_MSG_QUERY) (\<lambda>buf.
       and_then (write_u32 buf 4 (of_nat msg_size)) (\<lambda>buf.
       and_then (write_u32 buf 8 (request_id state)) (\<lambda>buf.
       and_then (write_u32 buf 12 oid) (\<lambda>buf.
       and_then (write_u32 buf 16 0) (\<lambda>buf.
       and_then (write_u32 buf 20 20) (\<lambda>buf.
       and_then (write_u32 buf 24 0) (\<lambda>buf.
       Ok (msg_size, buf, state)))))))))"

text \<open>\<open>data_out\<close> is returned updated, with the number of bytes copied into it.\<close>

definition parse_query_cmplt :: "u8 list \<Rightarrow> u8 list \<Rightarrow> (nat \<times> u8 list) outcome" where
  "parse_query_cmplt buf data_out =
     (if length buf < 24 then Err (BufferTooSmall 24 (length buf))
      else
        and_then (read_u32 buf 0) (\<lambda>msg_type.
        and_then (read_u32 buf 12) (\<lambda>status.
        if msg_type \<noteq> RNDIS_MSG_QUERY_C
        then Err (Rndis_Error (''expected QUERY_C, got '' @ show_hex msg_type))
        else if status \<noteq> RNDIS_STATUS_SUCCESS
        then Err (Rndis_Error (''QUERY_C status '' @ show_hex status))
        else
          and_then (read_u32 buf 16) (\<lambda>len32.
          and_then (read_u32 buf 20) (\<lambda>offset32.
          let len = unat len32; offset = unat offset32 in
          if len > 0 then
            let data_start = 8 + offset; end = data_start + len in
            if end > length buf then Err (BufferTooSmall end (length buf))
            else let to_copy = min len (length data_out) in
              and_then (subslice buf data_start (data_start + to_copy)) (\<lambda>src.
              and_then (copy_range data_out 0 to_copy src) (\<lambda>data_out.
              Ok (to_copy, data_out)))
          else Ok (0, data_out))))))"

definition build_set ::
  "u8 list \<Rightarrow> u32 \<Rightarrow> u8 list \<Rightarrow> rndis_state \<Rightarrow> (nat \<times> u8 list \<times> rndis_state) outcome" where
  "build_set buf oid data state = (let hdr_size = 28; total = hdr_size + length data in
     if length buf < total then Err (BufferTooSmall total (length buf))
     else let state = state\<lparr>request_id := request_id state + 1\<rparr> in
       and_then (write_u32 buf 0 RNDIS_MSG_SET) (\<lambda>buf.
       and_then (write_u32 buf 4 (of_nat total)) (\<lambda>buf.
       and_then (write_u32 buf 8 (request_id state)) (\<lambda>buf.
       and_then (write_u32 buf 12 oid) (\<lambda>buf.
       and_then (write_u32 buf 16 (of_nat (length data))) (\<lambda>buf.
       and_then (write_u32 buf 20 20) (\<lambda>buf.
       and_then (write_u32 buf 24 0) (\<lambda>buf.
       and_then (copy_range buf hdr_size total data) (\<lambda>buf.
       Ok (total, buf, state))))))))))"

definition parse_set_cmplt :: "u8 list \<Rightarrow> unit outcome" where
  "parse_set_cmplt buf =
     (if length buf < 16 then Err (BufferTooSmall 16 (length buf))
      else
        and_then (read_u32 buf 0) (\<lambda>msg_type.
        and_then (read_u32 buf 12) (\<lambda>status.
        if msg_type \<noteq> RNDIS_MSG_SET_C
        then Err (Rndis_Error (''expected SET_C, got '' @ show_hex msg_type))
        else if status \<noteq> RNDIS_STATUS_SUCCESS
        then Err (Rndis_Error (''SET_C status '' @ show_hex status))
        else Ok ())))"

definition build_keepalive ::
  "u8 list \<Rightarrow> rndis_state \<Rightarrow> (nat \<times> u8 list \<times> rndis_state) outcome" where
  "build_keepalive buf state = (let msg_size = 12 in
     if length buf < msg_size then Err (BufferTooSmall msg_size (length buf))
     else let state = state\<lparr>request_id := request_id state + 1\<rparr> in
       and_then (write_u32 buf 0 RNDIS_MSG_KEEPALIVE) (\<lambda>buf.
       and_then (write_u32 buf 4 (of_nat msg_size)) (\<lambda>buf.
       and_then (write_u32 buf 8 (request_id state)) (\<lambda>buf.
       Ok (msg_size, buf, state)))))"

section \<open>Data packets\<close>

definition build_data_packet :: "u8 list \<Rightarrow> u8 list \<Rightarrow> (nat \<times> u8 list) outcome" where
  "build_data_packet buf eth_frame = (let hdr_size = 44; total = hdr_size + length eth_frame in
     if length buf < total then Err (BufferTooSmall total (length buf))
     else
       and_then (write_u32 buf 0 RNDIS_MSG_PACKET) (\<lambda>buf.
       and_then (write_u32 buf 4 (of_nat total)) (\<lambda>buf.
       and_then (write_u32 buf 8 36) (\<lambda>buf.
       and_then (write_u32 buf 12 (of_nat (length eth_frame))) (\<lambda>buf.
       and_then (write_u32 buf 16 0) (\<lambda>buf.
       and_then (write_u32 buf 20 0) (\<lambda>buf.
       and_then (write_u32 buf 24 0) (\<lambda>buf.
       and_then (write_u32 buf 28 0) (\<lambda>buf.
       and_then (write_u32 buf 32 0) (\<lambda>buf.
       and_then (write_u32 buf 36 0) (\<lambda>buf.
       and_then (write_u32 buf 40 0) (\<lambda>buf.
       and_then (copy_range buf hdr_size total eth_frame) (\<lambda>buf.
       Ok (total, buf))))))))))))))"

text \<open>
  The iterator's state is its offset into the transfer. A message of length 0 or beyond
  the transfer ends the iteration; anything that is not a data packet is skipped.
  \<open>8 + dp_data_offset\<close> is a 32-bit addition and wraps; the rest of the address arithmetic
  is on \<open>usize\<close>.
\<close>

function rndis_next :: "u8 list \<Rightarrow> nat \<Rightarrow> (u8 list option \<times> nat) outcome" where
  "rndis_next data offset =
     (if offset + 8 > length data then Ok (None, offset)
      else and_then (read_u32 data (offset + 4)) (\<lambda>msg_len32.
        let msg_len = unat msg_len32 in
        if msg_len = 0 \<or> offset + msg_len > length data then Ok (None, offset)
        else and_then (subslice data offset (offset + msg_len)) (\<lambda>pkt_data.
          let offset' = offset + msg_len in
          if length pkt_data < 8 then rndis_next data offset'
          else and_then (read_u32 pkt_data 0) (\<lambda>dp_msg_type.
            if dp_msg_type \<noteq> RNDIS_MSG_PACKET then rndis_next data offset'
            else if length pkt_data < 44 then rndis_next data offset'
            else and_then (read_u32 pkt_data 8) (\<lambda>dp_data_offset.
              and_then (read_u32 pkt_data 12) (\<lambda>dp_data_len.
              if dp_data_offset < 36 \<or> dp_data_len = 0 then rndis_next data offset'
              else let data_start = unat (8 + dp_data_offset);
                       data_end = data_start + unat dp_data_len in
                if data_end > length pkt_data then rndis_next data offset'
                else and_then (subslice pkt_data data_start data_end) (\<lambda>frame.
                  Ok (Some frame, offset'))))))))"
  by pat_completeness auto
termination
  by (relation "measure (\<lambda>(data, offset). length data - offset)") auto

declare rndis_next.simps [simp del]

section \<open>Symbolic evaluation of buffers\<close>

named_theorems buffer_eval \<open>running reads and writes on appended segments\<close>

lemma write_u32_0 [buffer_eval]:
  "4 \<le> length xs \<Longrightarrow> write_u32 xs 0 v = Ok (u32_to_le_bytes v @ drop 4 xs)"
  by (simp add: write_u32_def copy_range_0)

lemma write_u32_append [buffer_eval]:
  assumes "length ps \<le> off"
  shows "write_u32 (ps @ xs) off v = map_ok (append ps) (write_u32 xs (off - length ps) v)"
proof -
  have "off + 4 - length ps = off - length ps + 4" using assms by simp
  then show ?thesis using assms by (simp only: write_u32_def copy_range_append le_add1 order_trans)
qed

lemma read_u32_0 [buffer_eval]: "read_u32 (u32_to_le_bytes v @ xs) 0 = Ok v"
  by (simp add: read_u32_def)

lemma read_u32_append [buffer_eval]:
  "length ps \<le> off \<Longrightarrow> read_u32 (ps @ xs) off = read_u32 xs (off - length ps)"
  by (auto simp: read_u32_def subslice_def)

lemma subslice_append [buffer_eval]:
  "length ps \<le> a \<Longrightarrow> a \<le> b \<Longrightarrow> subslice (ps @ xs) a b = subslice xs (a - length ps) (b - length ps)"
  by (auto simp: subslice_def)

lemmas [buffer_eval] = copy_range_0 copy_range_append

lemma read_u32_ok: "off + 4 \<le> length xs \<Longrightarrow> \<exists>w. read_u32 xs off = Ok w"
  by (auto simp: read_u32_def intro!: u32_of_le_slice_ok)

lemma read_u32_no_fault [simp]: "off + 4 \<le> length xs \<Longrightarrow> no_fault (read_u32 xs off)"
  using read_u32_ok by fastforce

lemma read_u32_append_left:
  "off + 4 \<le> length ps \<Longrightarrow> read_u32 (ps @ xs) off = read_u32 ps off"
  by (simp add: read_u32_def subslice_def)

section \<open>The builders in closed form\<close>

text \<open>A message as its little-endian words.\<close>

definition le_words :: "u32 list \<Rightarrow> u8 list" where
  "le_words ws = concat (map u32_to_le_bytes ws)"

lemma le_words_simps [simp]:
  "le_words [] = []" "le_words (w # ws) = u32_to_le_bytes w @ le_words ws"
  by (simp_all add: le_words_def)

lemma length_le_words [simp]: "length (le_words ws) = 4 * length ws"
  by (induction ws) auto

lemma build_init_ok:
  assumes "24 \<le> length buf"
  shows "build_init buf st =
    (let rid = request_id st + 1 in
     Ok (24, le_words [RNDIS_MSG_INIT, 24, rid, 1, 0, 0x8000] @ drop 24 buf, st\<lparr>request_id := rid\<rparr>))"
  using assms by (simp add: build_init_def buffer_eval Let_def)

lemma build_query_ok:
  assumes "28 \<le> length buf"
  shows "build_query buf oid st =
    (let rid = request_id st + 1 in
     Ok (28, le_words [RNDIS_MSG_QUERY, 28, rid, oid, 0, 20, 0] @ drop 28 buf, st\<lparr>request_id := rid\<rparr>))"
  using assms by (simp add: build_query_def buffer_eval Let_def)

lemma build_set_ok:
  assumes "28 + length data \<le> length buf"
  shows "build_set buf oid data st =
    (let rid = request_id st + 1 in
     Ok (28 + length data,
       le_words [RNDIS_MSG_SET, of_nat (28 + length data), rid, oid, of_nat (length data), 20, 0]
         @ data @ drop (28 + length data) buf,
       st\<lparr>request_id := rid\<rparr>))"
  using assms by (simp add: build_set_def buffer_eval Let_def add.commute)

lemma build_keepalive_ok:
  assumes "12 \<le> length buf"
  shows "build_keepalive buf st =
    (let rid = request_id st + 1 in
     Ok (12, le_words [RNDIS_MSG_KEEPALIVE, 12, rid] @ drop 12 buf, st\<lparr>request_id := rid\<rparr>))"
  using assms by (simp add: build_keepalive_def buffer_eval Let_def)

text \<open>The message that carries a frame.\<close>

definition data_message :: "u8 list \<Rightarrow> u8 list" where
  "data_message f =
     le_words [RNDIS_MSG_PACKET, of_nat (44 + length f), 36, of_nat (length f), 0, 0, 0, 0, 0, 0, 0] @ f"

lemma length_data_message [simp]: "length (data_message f) = 44 + length f"
  by (simp add: data_message_def)

lemma build_data_packet_ok:
  assumes "44 + length f \<le> length buf"
  shows "build_data_packet buf f =
    Ok (44 + length f, data_message f @ drop (44 + length f) buf)"
  using assms by (simp add: build_data_packet_def data_message_def buffer_eval Let_def add.commute)

lemma build_data_packet_small:
  "length buf < 44 + length f \<Longrightarrow>
   build_data_packet buf f = Err (BufferTooSmall (44 + length f) (length buf))"
  by (simp add: build_data_packet_def)

section \<open>The packet iterator\<close>

text \<open>
  What one step promises: the offset never moves back, and a yielded frame is a non-empty
  piece of the transfer, between the old offset and the new one.
\<close>

definition frame_at :: "u8 list \<Rightarrow> nat \<Rightarrow> nat \<Rightarrow> u8 list \<Rightarrow> bool" where
  "frame_at data off off' frame \<longleftrightarrow>
     off' \<le> length data \<and> frame \<noteq> [] \<and>
     (\<exists>a. off \<le> a \<and> a + length frame \<le> off' \<and> frame = take (length frame) (drop a data))"

lemma frame_at_mono: "frame_at data off1 off' frame \<Longrightarrow> off \<le> off1 \<Longrightarrow> frame_at data off off' frame"
  unfolding frame_at_def by (meson le_trans)

lemma frame_at_advances: "frame_at data off off' frame \<Longrightarrow> off < off' \<and> off' \<le> length data"
  by (cases frame) (auto simp: frame_at_def)

text \<open>
  One unfolding of the iterator with its three outcomes named: it stops, it skips a
  message and goes on behind it, or it yields a frame.
\<close>

lemma rndis_next_cases:
  obtains (stop) "rndis_next data off = Ok (None, off)"
  | (skip) off' where "off < off'" "off' \<le> length data" "rndis_next data off = rndis_next data off'"
  | (yield) off' frame where "rndis_next data off = Ok (Some frame, off')" "frame_at data off off' frame"
proof (cases "off + 8 > length data")
  case True
  then show thesis by (intro stop) (subst rndis_next.simps, simp)
next
  case False
  then obtain w where w: "read_u32 data (off + 4) = Ok w"
    using read_u32_ok [of "off + 4" data] by auto
  define m where "m = unat w"
  show thesis
  proof (cases "m = 0 \<or> off + m > length data")
    case True
    with False w show thesis by (intro stop) (subst rndis_next.simps, simp add: m_def Let_def)
  next
    case inside: False
    define pkt where "pkt = take m (drop off data)"
    have pkt: "subslice data off (off + m) = Ok pkt" and len: "length pkt = m"
      using inside by (auto simp: pkt_def min_def)
    have unfold_it: "rndis_next data off =
      (if length pkt < 8 then rndis_next data (off + m)
       else and_then (read_u32 pkt 0) (\<lambda>t.
         if t \<noteq> RNDIS_MSG_PACKET then rndis_next data (off + m)
         else if length pkt < 44 then rndis_next data (off + m)
         else and_then (read_u32 pkt 8) (\<lambda>dof. and_then (read_u32 pkt 12) (\<lambda>dlen.
           if dof < 36 \<or> dlen = 0 then rndis_next data (off + m)
           else if unat (8 + dof) + unat dlen > length pkt then rndis_next data (off + m)
           else and_then (subslice pkt (unat (8 + dof)) (unat (8 + dof) + unat dlen))
             (\<lambda>frame. Ok (Some frame, off + m))))))"
      using False w inside pkt by (subst rndis_next.simps) (simp add: m_def Let_def cong: if_cong)
    have go_on: "off < off + m" "off + m \<le> length data" using inside by auto
    consider "length pkt < 44" | "44 \<le> length pkt" by linarith
    then show thesis
    proof cases
      case 1
      then show thesis
        using unfold_it skip [OF go_on] read_u32_ok [of 0 pkt]
        by (cases "length pkt < 8") (auto split: if_splits)
    next
      case 2
      obtain t dof dlen where rd: "read_u32 pkt 0 = Ok t" "read_u32 pkt 8 = Ok dof"
          "read_u32 pkt 12 = Ok dlen"
        using 2 read_u32_ok [of 0 pkt] read_u32_ok [of 8 pkt] read_u32_ok [of 12 pkt] by auto
      show thesis
      proof (cases "t \<noteq> RNDIS_MSG_PACKET \<or> dof < 36 \<or> dlen = 0 \<or>
          unat (8 + dof) + unat dlen > length pkt")
        case True
        with 2 rd unfold_it have "rndis_next data off = rndis_next data (off + m)" by auto
        then show thesis by (rule skip [OF go_on])
      next
        case data: False
        define frame where "frame = take (unat dlen) (drop (unat (8 + dof)) pkt)"
        have res: "rndis_next data off = Ok (Some frame, off + m)"
          using 2 rd unfold_it data by (simp add: frame_def)
        have "length frame = unat dlen" using data by (auto simp: frame_def min_def)
        moreover have "unat dlen \<noteq> 0" using data by (simp add: unat_eq_zero)
        moreover have "frame = take (length frame) (drop (off + unat (8 + dof)) data)"
          using data len calculation(1)
          by (simp add: frame_def pkt_def drop_take add.commute)
        ultimately have "frame_at data off (off + m) frame"
          using data len go_on unfolding frame_at_def
          by (intro conjI exI [of _ "off + unat (8 + dof)"]) auto
        with res show thesis by (rule yield)
      qed
    qed
  qed
qed

text \<open>Every step returns: no panic, no endless skipping, on any bytes whatever.\<close>

lemma rndis_next_total:
  "(\<exists>off'. off \<le> off' \<and> rndis_next data off = Ok (None, off')) \<or>
   (\<exists>off' frame. rndis_next data off = Ok (Some frame, off') \<and> frame_at data off off' frame)"
proof (induction "length data - off" arbitrary: off rule: less_induct)
  case less
  show ?case
  proof (cases rule: rndis_next_cases [of data off])
    case stop
    then show ?thesis by auto
  next
    case (skip off')
    then have "length data - off' < length data - off" by simp
    from less [OF this] skip show ?thesis
      by (metis frame_at_mono le_trans less_imp_le_nat)
  next
    case (yield off' frame)
    then show ?thesis by auto
  qed
qed

lemma rndis_next_SomeD: "rndis_next data off = Ok (Some frame, off') \<Longrightarrow> frame_at data off off' frame"
  using rndis_next_total [of off data] by auto

lemma rndis_next_no_fault [simp]: "no_fault (rndis_next data off)"
  using rndis_next_total [of off data] by auto

lemma rndis_next_not_Err [simp]: "rndis_next data off \<noteq> Err e"
  using rndis_next_total [of off data] by auto

text \<open>
  \<open>for frame in RndisPacketIter::new(data) { on_frame(frame) }\<close>, with the state that the
  closure captures passed along.
\<close>

function for_each_frame ::
  "(u8 list \<Rightarrow> 's \<Rightarrow> 's outcome) \<Rightarrow> u8 list \<Rightarrow> nat \<Rightarrow> 's \<Rightarrow> 's outcome" where
  "for_each_frame on_frame data off s =
     and_then (rndis_next data off) (\<lambda>(item, off').
       case item of
         None \<Rightarrow> Ok s
       | Some frame \<Rightarrow> and_then (on_frame frame s) (\<lambda>s'. for_each_frame on_frame data off' s'))"
  by pat_completeness auto
termination
  by (relation "measure (\<lambda>(f, data, off, s). length data - off)")
    (auto dest!: rndis_next_SomeD frame_at_advances)

declare for_each_frame.simps [simp del]

text \<open>The frames of a transfer, collected, and the loop as a fold over them.\<close>

function rndis_frames_from :: "u8 list \<Rightarrow> nat \<Rightarrow> u8 list list outcome" where
  "rndis_frames_from data off =
     and_then (rndis_next data off) (\<lambda>(item, off').
       case item of
         None \<Rightarrow> Ok []
       | Some frame \<Rightarrow> map_ok (Cons frame) (rndis_frames_from data off'))"
  by pat_completeness auto
termination
  by (relation "measure (\<lambda>(data, off). length data - off)")
    (auto dest!: rndis_next_SomeD frame_at_advances)

declare rndis_frames_from.simps [simp del]

definition rndis_frames :: "u8 list \<Rightarrow> u8 list list outcome" where
  "rndis_frames data = rndis_frames_from data 0"

fun fold_outcome :: "('a \<Rightarrow> 's \<Rightarrow> 's outcome) \<Rightarrow> 'a list \<Rightarrow> 's \<Rightarrow> 's outcome" where
  "fold_outcome f [] s = Ok s"
| "fold_outcome f (x # xs) s = and_then (f x s) (fold_outcome f xs)"

lemma fold_outcome_Nil_fun [simp]: "fold_outcome f [] = Ok"
  by (rule ext) simp

lemma no_fault_fold_outcome:
  "(\<And>x s. x \<in> set xs \<Longrightarrow> no_fault (f x s)) \<Longrightarrow> no_fault (fold_outcome f xs s)"
  by (induction xs arbitrary: s) (auto intro!: no_fault_and_then)

text \<open>Pieces of a transfer, one behind the other.\<close>

fun frames_within :: "u8 list \<Rightarrow> nat \<Rightarrow> u8 list list \<Rightarrow> bool" where
  "frames_within data off [] = True"
| "frames_within data off (f # fs) = (\<exists>off'. frame_at data off off' f \<and> frames_within data off' fs)"

lemma frames_within_length:
  "frames_within data off fs \<Longrightarrow> off \<le> length data \<Longrightarrow>
   off + sum_list (map length fs) \<le> length data"
proof (induction fs arbitrary: off)
  case (Cons f fs)
  then obtain off' where f: "frame_at data off off' f" and fs: "frames_within data off' fs"
    by auto
  from f have "off + length f \<le> off'" "off' \<le> length data" by (auto simp: frame_at_def)
  with Cons.IH [OF fs] show ?case by simp
qed simp

lemma frames_within_nonempty: "frames_within data off fs \<Longrightarrow> f \<in> set fs \<Longrightarrow> f \<noteq> []"
  by (induction fs arbitrary: off) (auto simp: frame_at_def)

lemma rndis_frames_from_ok:
  "\<exists>fs. rndis_frames_from data off = Ok fs \<and> frames_within data off fs"
proof (induction data off rule: rndis_frames_from.induct)
  case (1 data off)
  from rndis_next_total [of off data] show ?case
  proof (elim disjE exE conjE)
    fix off' assume "rndis_next data off = Ok (None, off')"
    then show ?thesis by (subst rndis_frames_from.simps) simp
  next
    fix off' frame
    assume nxt: "rndis_next data off = Ok (Some frame, off')" and at: "frame_at data off off' frame"
    from "1.IH" [OF nxt refl refl] obtain fs where
      "rndis_frames_from data off' = Ok fs" "frames_within data off' fs" by auto
    with nxt at show ?thesis by (subst rndis_frames_from.simps) auto
  qed
qed

lemma for_each_frame_fold:
  "for_each_frame f data off s = and_then (rndis_frames_from data off) (\<lambda>fs. fold_outcome f fs s)"
proof (induction data off arbitrary: s rule: rndis_frames_from.induct)
  case (1 data off)
  from rndis_next_total [of off data] show ?case
  proof (elim disjE exE conjE)
    fix off' assume "rndis_next data off = Ok (None, off')"
    then show ?thesis
      by (subst for_each_frame.simps, subst rndis_frames_from.simps) simp
  next
    fix off' frame assume nxt: "rndis_next data off = Ok (Some frame, off')"
    obtain fs where fs: "rndis_frames_from data off' = Ok fs"
      using rndis_frames_from_ok by blast
    have "for_each_frame f data off' = fold_outcome f fs"
      using "1.IH" [OF nxt refl refl] fs by (simp add: fun_eq_iff)
    with nxt fs show ?thesis
      by (subst for_each_frame.simps, subst rndis_frames_from.simps) simp
  qed
qed

section \<open>Streams of messages\<close>

text \<open>
  What a device puts into one transfer: data messages and other messages (indications,
  completions), each with its own length in its second word.
\<close>

datatype rndis_item = Data "u8 list" | Other "u8 list"

fun item_bytes :: "rndis_item \<Rightarrow> u8 list" where
  "item_bytes (Data f) = data_message f"
| "item_bytes (Other m) = m"

definition carries :: "u8 list \<Rightarrow> bool" where
  "carries f \<longleftrightarrow> f \<noteq> [] \<and> 44 + length f < 2 ^ 32"

definition other_message :: "u8 list \<Rightarrow> bool" where
  "other_message m \<longleftrightarrow>
     8 \<le> length m \<and> length m < 2 ^ 32 \<and> read_u32 m 4 = Ok (of_nat (length m)) \<and>
     read_u32 m 0 \<noteq> Ok RNDIS_MSG_PACKET"

fun item_ok :: "rndis_item \<Rightarrow> bool" where
  "item_ok (Data f) = carries f"
| "item_ok (Other m) = other_message m"

fun item_frames :: "rndis_item list \<Rightarrow> u8 list list" where
  "item_frames [] = []"
| "item_frames (Data f # ms) = f # item_frames ms"
| "item_frames (Other m # ms) = item_frames ms"

lemma unat_of_nat_u32: "n < 2 ^ 32 \<Longrightarrow> unat (of_nat n :: u32) = n"
  by (simp add: unat_of_nat take_bit_nat_eq_self)

lemma rndis_next_data:
  assumes "carries f"
  shows "rndis_next (pre @ data_message f @ rest) (length pre) =
    Ok (Some f, length pre + (44 + length f))"
proof -
  let ?n = "of_nat (length f) :: u32"
  have un: "unat (of_nat (44 + length f) :: u32) = 44 + length f" "unat ?n = length f"
    using assms by (simp_all only: unat_of_nat_u32 carries_def)
      (auto simp: carries_def intro!: unat_of_nat_u32)
  then have nz: "?n \<noteq> 0" using assms by (metis carries_def length_0_conv unat_0)
  show ?thesis
    by (subst rndis_next.simps)
      (use assms un nz in \<open>simp add: data_message_def buffer_eval Let_def\<close>)
qed

lemma rndis_next_other:
  assumes "other_message m"
  shows "rndis_next (pre @ m @ rest) (length pre) =
    rndis_next (pre @ m @ rest) (length pre + length m)"
proof -
  let ?D = "pre @ m @ rest"
  have len: "8 \<le> length m" "m \<noteq> []" "unat (of_nat (length m) :: u32) = length m"
    using assms by (auto simp: other_message_def intro: unat_of_nat_u32)
  have four: "read_u32 ?D (length pre + 4) = Ok (of_nat (length m))"
    using assms len by (simp add: read_u32_append read_u32_append_left other_message_def)
  obtain t where t: "read_u32 m 0 = Ok t" "t \<noteq> RNDIS_MSG_PACKET"
    using assms len read_u32_ok [of 0 m] by (auto simp: other_message_def)
  have piece: "subslice ?D (length pre) (length pre + length m) = Ok m" by simp
  show ?thesis
    by (subst rndis_next.simps) (use len four t piece in \<open>simp add: Let_def\<close>)
qed

lemma rndis_next_end: "length data < off + 8 \<Longrightarrow> rndis_next data off = Ok (None, off)"
  by (subst rndis_next.simps) simp

lemma rndis_frames_from_items:
  assumes "\<forall>m\<in>set items. item_ok m" and "length trail < 8"
  shows "rndis_frames_from (pre @ concat (map item_bytes items) @ trail) (length pre) =
    Ok (item_frames items)"
  using assms(1)
proof (induction items arbitrary: pre)
  case Nil
  then show ?case
    using assms(2) by (subst rndis_frames_from.simps) (simp add: rndis_next_end)
next
  case (Cons m items)
  let ?rest = "concat (map item_bytes items) @ trail"
  have IH: "rndis_frames_from ((pre @ item_bytes m) @ ?rest) (length (pre @ item_bytes m)) =
      Ok (item_frames items)"
    using Cons.prems by (intro Cons.IH) simp
  show ?case
  proof (cases m)
    case (Data f)
    with Cons.prems IH rndis_next_data [of f pre ?rest] show ?thesis
      by (subst rndis_frames_from.simps) (simp add: add.commute)
  next
    case (Other b)
    have "rndis_frames_from ((pre @ b) @ ?rest) (length pre) =
        rndis_frames_from ((pre @ b) @ ?rest) (length (pre @ b))"
      by (subst (1 2) rndis_frames_from.simps)
        (use Cons.prems Other rndis_next_other [of b pre ?rest] in simp)
    with Other IH show ?thesis by simp
  qed
qed

section \<open>Properties of the message layer\<close>

text \<open>
  Claim C6: the frames of a bulk transfer are exactly the frames the peer put into data
  messages, in order: messages of other types between them are skipped, and a trailing
  fragment shorter than a header ends the iteration.
\<close>

theorem rndis_stream_roundtrip:
  assumes "\<forall>m\<in>set items. item_ok m" and "length trail < 8"
  shows "rndis_frames (concat (map item_bytes items) @ trail) = Ok (item_frames items)"
  using rndis_frames_from_items [OF assms, of "[]"] by (simp add: rndis_frames_def)

theorem rndis_stream_roundtrip_witness:
  "rndis_frames (concat (map item_bytes
     [Data [1, 2, 3], Other [8, 0, 0, 0x80, 8, 0, 0, 0], Data [7]]) @ [0, 0]) = Ok [[1, 2, 3], [7]]"
proof -
  have "item_ok (Other [8, 0, 0, 0x80, 8, 0, 0, 0])"
    by (simp add: other_message_def read_u32_def u32_of_le_slice_def u32_from_le_def u32_from_be_def)
  then show ?thesis
    using rndis_stream_roundtrip [of
      "[Data [1, 2, 3], Other [8, 0, 0, 0x80, 8, 0, 0, 0], Data [7]]" "[0, 0]"]
    by (simp add: carries_def)
qed

text \<open>
  Claim C18: on any transfer, however corrupt, the iteration ends without a panic, and the
  frames it yields are non-empty, lie inside the transfer and do not overlap.
\<close>

theorem rndis_frames_safe:
  "\<exists>fs. rndis_frames data = Ok fs \<and> frames_within data 0 fs \<and>
     sum_list (map length fs) \<le> length data"
proof -
  obtain fs where "rndis_frames_from data 0 = Ok fs" "frames_within data 0 fs"
    using rndis_frames_from_ok by blast
  with frames_within_length [of data 0 fs] show ?thesis by (simp add: rndis_frames_def)
qed

text \<open>
  A wrapped frame comes back from the transfer that \<open>build_data_packet\<close> wrote,
  whatever the buffer held before.
\<close>

theorem data_packet_roundtrip:
  "44 + length f \<le> length buf \<Longrightarrow> f \<noteq> [] \<Longrightarrow> 44 + length f < 2 ^ 32 \<Longrightarrow>
   \<exists>buf'. build_data_packet buf f = Ok (44 + length f, buf') \<and> length buf' = length buf \<and>
     rndis_frames (take (44 + length f) buf') = Ok [f]"
  using rndis_frames_from_items [of "[Data f]" "[]" "[]"]
  by (simp add: build_data_packet_ok carries_def rndis_frames_def)

theorem data_packet_roundtrip_witness:
  "\<exists>buf'. build_data_packet (replicate 50 0xAA) [1, 2] = Ok (46, buf') \<and>
     rndis_frames (take 46 buf') = Ok [[1, 2]]"
  using data_packet_roundtrip [of "[1, 2]" "replicate 50 0xAA"] by auto

section \<open>Control messages against their wire format\<close>

text \<open>
  The requests of the protocol as data, and their bytes: type, total length, request id
  and the payload words of each kind.
\<close>

datatype rndis_request =
    Init_Req
  | Query_Req u32
  | Set_Req u32 "u8 list"
  | Keepalive_Req

fun request_wire :: "u32 \<Rightarrow> rndis_request \<Rightarrow> u8 list" where
  "request_wire rid Init_Req = le_words [RNDIS_MSG_INIT, 24, rid, 1, 0, 0x8000]"
| "request_wire rid (Query_Req oid) = le_words [RNDIS_MSG_QUERY, 28, rid, oid, 0, 20, 0]"
| "request_wire rid (Set_Req oid data) =
     le_words [RNDIS_MSG_SET, of_nat (28 + length data), rid, oid, of_nat (length data), 20, 0] @ data"
| "request_wire rid Keepalive_Req = le_words [RNDIS_MSG_KEEPALIVE, 12, rid]"

text \<open>
  Issuing a request: refuse a buffer that cannot hold it and touch nothing, or count the
  request and overwrite exactly the message's bytes at the front of the buffer.
\<close>

definition issue_request ::
  "rndis_request \<Rightarrow> u8 list \<Rightarrow> rndis_state \<Rightarrow> (nat \<times> u8 list \<times> rndis_state) outcome" where
  "issue_request req buf st =
     (let rid = request_id st + 1; w = request_wire rid req in
      if length buf < length w then Err (BufferTooSmall (length w) (length buf))
      else Ok (length w, w @ drop (length w) buf, st\<lparr>request_id := rid\<rparr>))"

lemma build_issue:
  "build_init buf st = issue_request Init_Req buf st"
  "build_query buf oid st = issue_request (Query_Req oid) buf st"
  "build_set buf oid data st = issue_request (Set_Req oid data) buf st"
  "build_keepalive buf st = issue_request Keepalive_Req buf st"
proof -
  show "build_init buf st = issue_request Init_Req buf st"
    using build_init_ok [of buf st]
    by (cases "length buf < 24") (simp_all add: build_init_def issue_request_def Let_def)
  show "build_query buf oid st = issue_request (Query_Req oid) buf st"
    using build_query_ok [of buf oid st]
    by (cases "length buf < 28") (simp_all add: build_query_def issue_request_def Let_def)
  show "build_set buf oid data st = issue_request (Set_Req oid data) buf st"
    using build_set_ok [of data buf oid st]
    by (cases "length buf < 28 + length data") (simp_all add: build_set_def issue_request_def Let_def)
  show "build_keepalive buf st = issue_request Keepalive_Req buf st"
    using build_keepalive_ok [of buf st]
    by (cases "length buf < 12") (simp_all add: build_keepalive_def issue_request_def Let_def)
qed

text \<open>
  Claim C34: the four builders of control requests implement the wire format: each either
  reports \<open>BufferTooSmall\<close> with the needed and the given size, or writes exactly the
  request's bytes under a fresh request id, leaving the rest of the buffer as it was.
\<close>

theorem control_requests_refine:
  "build_init buf st = issue_request Init_Req buf st \<and>
   build_query buf oid st = issue_request (Query_Req oid) buf st \<and>
   build_set buf oid data st = issue_request (Set_Req oid data) buf st \<and>
   build_keepalive buf st = issue_request Keepalive_Req buf st"
  by (simp add: build_issue)

text \<open>The completions: their words, and what the parsers make of them.\<close>

lemma parse_init_cmplt_words:
  assumes "13 \<le> length ws"
  shows "parse_init_cmplt (le_words ws @ r) st =
    (if ws ! 0 \<noteq> RNDIS_MSG_INIT_C
     then Err (Rndis_Error (''expected INIT_C, got '' @ show_hex (ws ! 0)))
     else if ws ! 3 \<noteq> RNDIS_STATUS_SUCCESS
     then Err (Rndis_Error (''INIT_C status '' @ show_hex (ws ! 3)))
     else Ok (st\<lparr>max_transfer_size := ws ! 10, medium := ws ! 7\<rparr>))"
proof -
  have rd: "read_u32 (le_words ws @ r) (4 * k) = Ok (ws ! k)" if "k < length ws" for k
    using that
  proof (induction k arbitrary: ws)
    case 0
    then show ?case by (cases ws) (simp_all add: buffer_eval)
  next
    case (Suc k)
    then show ?case by (cases ws) (simp_all add: buffer_eval)
  qed
  have "ws \<noteq> []" using assms by auto
  then have "read_u32 (le_words ws @ r) 0 = Ok (ws ! 0)"
    "read_u32 (le_words ws @ r) 12 = Ok (ws ! 3)"
    "read_u32 (le_words ws @ r) 28 = Ok (ws ! 7)"
    "read_u32 (le_words ws @ r) 40 = Ok (ws ! 10)"
    using assms rd [of 0] rd [of 3] rd [of 7] rd [of 10] by simp_all
  then show ?thesis
    using assms by (simp add: parse_init_cmplt_def)
qed

lemma parse_query_cmplt_answer:
  assumes "length info < 2 ^ 32" and "16 + length pad < 2 ^ 32"
  shows "parse_query_cmplt
      (le_words [RNDIS_MSG_QUERY_C, tot, rid, RNDIS_STATUS_SUCCESS, of_nat (length info),
        of_nat (16 + length pad)] @ pad @ info @ r) out =
    (let n = min (length info) (length out) in Ok (n, take n info @ drop n out))"
proof -
  have un: "unat (of_nat (length info) :: u32) = length info"
    "unat (of_nat (16 + length pad) :: u32) = 16 + length pad"
    using assms by (simp_all only: unat_of_nat_u32)
  show ?thesis
    using un by (cases "info = []") (simp_all add: parse_query_cmplt_def buffer_eval Let_def min.commute)
qed

text \<open>
  No completion from the device makes a parser panic: the announced lengths and offsets are
  checked before every slice.
\<close>

lemma completion_parsers_safe:
  "no_fault (parse_init_cmplt buf st)" "no_fault (parse_query_cmplt buf out)"
  "no_fault (parse_set_cmplt buf)"
  by (auto simp: parse_init_cmplt_def parse_query_cmplt_def parse_set_cmplt_def Let_def
      copy_range_def intro!: no_fault_and_then)

text \<open>
  The data offset of a message is added to 8 in 32 bits, so an offset next to \<open>2 ^ 32\<close>
  passes the lower-bound check and points back at the message header: here the yielded
  ``frame'' is the whole 44-byte message.
\<close>

definition wrapping_message :: "u8 list" where
  "wrapping_message = le_words [RNDIS_MSG_PACKET, 44, 0xFFFFFFF8, 44, 0, 0, 0, 0, 0, 0, 0]"

lemma data_offset_wraps: "rndis_next wrapping_message 0 = Ok (Some wrapping_message, 44)"
  by (subst rndis_next.simps) (simp add: wrapping_message_def buffer_eval Let_def)

end
