(* ===== verification/Usb_Device.thy ===== *)
theory Usb_Device
  imports Net_Types
begin

text \<open>
  \<^verbatim>\<open>src/usb_device.rs\<close>: the search for a tethering device and its control and bulk
  transfers. The \<open>nusb\<close> crate is a parameter: a record of the calls the code makes on it,
  over a world \<open>'w\<close> and interface handles \<open>'i\<close>; nothing is assumed about them but what a
  theorem states. Timeouts are the millisecond arguments the code passes; sleeping and
  logging have no effect here.
\<close>

section \<open>Descriptors and the calls on nusb\<close>

datatype transfer_type = Control | Isochronous | Bulk | Interrupt

record endpoint_desc =
  ep_address :: u8
  ep_type :: transfer_type

record alt_setting =
  interface_number :: u8
  alternate_setting :: u8
  alt_class :: u8
  alt_subclass :: u8
  alt_protocol :: u8
  alt_endpoints :: "endpoint_desc list"

text \<open>The interfaces of a configuration, each with its alternate settings.\<close>

type_synonym configuration = "alt_setting list list"

datatype transfer_status = Xfer_Ok | Xfer_Cancelled | Xfer_Failed string

record completion =
  comp_status :: transfer_status
  actual_len :: nat
  comp_buffer :: "u8 list"

record ('d, 'i, 'w) nusb =
  list_devices :: "('w, 'd list) io"
  open_device :: "'d \<Rightarrow> ('w, unit) io"
  active_configuration :: "'d \<Rightarrow> ('w, configuration) io"
  detach_and_claim_interface :: "'d \<Rightarrow> u8 \<Rightarrow> ('w, 'i) io"
  claim_interface :: "'d \<Rightarrow> u8 \<Rightarrow> ('w, 'i) io"
  set_alt_setting :: "'i \<Rightarrow> u8 \<Rightarrow> ('w, unit) io"
  control_out :: "'i \<Rightarrow> u8 \<Rightarrow> u16 \<Rightarrow> u16 \<Rightarrow> u8 list \<Rightarrow> nat \<Rightarrow> ('w, unit) io"
  control_in :: "'i \<Rightarrow> u8 \<Rightarrow> u16 \<Rightarrow> u16 \<Rightarrow> u16 \<Rightarrow> nat \<Rightarrow> ('w, u8 list) io"
  open_endpoint :: "'i \<Rightarrow> u8 \<Rightarrow> ('w, unit) io"
  max_packet_size :: "'i \<Rightarrow> u8 \<Rightarrow> nat"
  transfer_out :: "'i \<Rightarrow> u8 \<Rightarrow> u8 list \<Rightarrow> nat \<Rightarrow> 'w \<Rightarrow> completion \<times> 'w"
  transfer_in :: "'i \<Rightarrow> u8 \<Rightarrow> nat \<Rightarrow> nat \<Rightarrow> 'w \<Rightarrow> completion \<times> 'w"

definition USB_CTRL_TIMEOUT :: nat where "USB_CTRL_TIMEOUT = 5000"
definition USB_BULK_TIMEOUT :: nat where "USB_BULK_TIMEOUT = 500"
definition CDC_SEND_ENCAPSULATED :: u8 where "CDC_SEND_ENCAPSULATED = 0"
definition CDC_GET_ENCAPSULATED :: u8 where "CDC_GET_ENCAPSULATED = 1"

record 'i usb_device =
  iface_comm :: 'i
  iface_data :: "'i option"
  ep_in_addr :: u8
  ep_out_addr :: u8
  ep_int_addr :: u8
  comm_iface :: u8
  data_iface :: u8

section \<open>Finding the device\<close>

definition is_rndis_interface :: "u8 \<Rightarrow> u8 \<Rightarrow> u8 \<Rightarrow> bool" where
  "is_rndis_interface class subclass protocol \<longleftrightarrow>
     (class, subclass, protocol) \<in>
       {(0xE0, 0x01, 0x03), (0x02, 0x02, 0x03), (0x02, 0xFF, 0x03), (0xFF, 0x01, 0x03),
        (0x02, 0x0D, 0x00), (0x02, 0x06, 0x00)}"

definition is_data_interface :: "u8 \<Rightarrow> u8 \<Rightarrow> u8 \<Rightarrow> bool" where
  "is_data_interface class subclass protocol \<longleftrightarrow> class = 0x0A"

text \<open>
  The scan over all alternate settings of all interfaces, in descriptor order: a later
  match replaces an earlier one, and a data interface counts only once a comm interface
  has been seen.
\<close>

definition scan_alt :: "alt_setting \<Rightarrow> u8 option \<times> u8 option \<Rightarrow> u8 option \<times> u8 option" where
  "scan_alt alt found = (case found of (comm, data) \<Rightarrow>
     let inum = interface_number alt;
         comm = (if is_rndis_interface (alt_class alt) (alt_subclass alt) (alt_protocol alt)
                 then Some inum else comm);
         data = (if is_data_interface (alt_class alt) (alt_subclass alt) (alt_protocol alt) \<and> comm \<noteq> None
                 then Some inum else data)
     in (comm, data))"

definition scan_interfaces :: "configuration \<Rightarrow> u8 option \<times> u8 option" where
  "scan_interfaces config = fold scan_alt (concat config) (None, None)"

text \<open>
  The comm and data interface of a configuration: without a data interface the code takes
  the number after the comm interface (an 8-bit addition).
\<close>

definition choose_interfaces :: "configuration \<Rightarrow> (u8 \<times> u8) option" where
  "choose_interfaces config = (case scan_interfaces config of
     (None, _) \<Rightarrow> None
   | (Some c, None) \<Rightarrow> Some (c, c + 1)
   | (Some c, Some d) \<Rightarrow> Some (c, d))"

record endpoints_found =
  found_in :: u8
  found_out :: u8
  found_int :: u8

definition scan_endpoint :: "bool \<Rightarrow> endpoint_desc \<Rightarrow> endpoints_found \<Rightarrow> endpoints_found" where
  "scan_endpoint on_comm ep f =
     (let addr = ep_address ep; dir = addr AND 0x80 in
      case ep_type ep of
        Interrupt \<Rightarrow> (if on_comm then f\<lparr>found_int := addr\<rparr> else f)
      | Bulk \<Rightarrow> (if dir = 0x80 then f\<lparr>found_in := addr\<rparr>
                 else if dir = 0 then f\<lparr>found_out := addr\<rparr> else f)
      | _ \<Rightarrow> f)"

definition scan_endpoints_alt :: "u8 \<Rightarrow> u8 \<Rightarrow> alt_setting \<Rightarrow> endpoints_found \<Rightarrow> endpoints_found" where
  "scan_endpoints_alt comm data alt f =
     (let inum = interface_number alt in
      if inum \<noteq> comm \<and> inum \<noteq> data then f
      else fold (scan_endpoint (inum = comm)) (alt_endpoints alt) f)"

definition scan_endpoints :: "u8 \<Rightarrow> u8 \<Rightarrow> configuration \<Rightarrow> endpoints_found" where
  "scan_endpoints comm data config =
     fold (scan_endpoints_alt comm data) (concat config)
       \<lparr>found_in = 0, found_out = 0, found_int = 0\<rparr>"

text \<open>After \<open>set_alt_setting(1)\<close>: the bulk endpoints of the data interface's setting 1.\<close>

definition scan_endpoint_alt1 :: "endpoint_desc \<Rightarrow> endpoints_found \<Rightarrow> endpoints_found" where
  "scan_endpoint_alt1 ep f =
     (let addr = ep_address ep; dir = addr AND 0x80 in
      if ep_type ep = Bulk
      then (if dir = 0x80 then f\<lparr>found_in := addr\<rparr> else f\<lparr>found_out := addr\<rparr>)
      else f)"

definition scan_alt1 :: "u8 \<Rightarrow> alt_setting \<Rightarrow> endpoints_found \<Rightarrow> endpoints_found" where
  "scan_alt1 data alt f =
     (if interface_number alt \<noteq> data \<or> alternate_setting alt \<noteq> 1 then f
      else fold scan_endpoint_alt1 (alt_endpoints alt) f)"

definition retry_alt1 ::
  "('d, 'i, 'w) nusb \<Rightarrow> 'd \<Rightarrow> 'i \<Rightarrow> u8 \<Rightarrow> endpoints_found \<Rightarrow> ('w, endpoints_found) io" where
  "retry_alt1 nu dev iface data f =
     (if found_in f = 0 \<or> found_out f = 0 then
        io_then (io_try (set_alt_setting nu iface 1)) (\<lambda>r.
          case r of Inl _ \<Rightarrow> io_lift (Ok f)
          | Inr _ \<Rightarrow>
              io_then (io_try (active_configuration nu dev)) (\<lambda>c.
                case c of Inl _ \<Rightarrow> io_lift (Ok f)
                | Inr config2 \<Rightarrow> io_lift (Ok (fold (scan_alt1 data) (concat config2) f))))
      else io_lift (Ok f))"

text \<open>
  One candidate device: every failure on the way makes the loop \<open>continue\<close> (\<open>None\<close>);
  success needs both bulk endpoints.
\<close>

definition try_device :: "('d, 'i, 'w) nusb \<Rightarrow> 'd \<Rightarrow> ('w, 'i usb_device option) io" where
  "try_device nu dev =
     io_then (io_try (open_device nu dev)) (\<lambda>opened.
     case opened of Inl _ \<Rightarrow> io_lift (Ok None)
     | Inr _ \<Rightarrow>
     io_then (io_try (active_configuration nu dev)) (\<lambda>conf.
     case conf of Inl _ \<Rightarrow> io_lift (Ok None)
     | Inr config \<Rightarrow>
     (case choose_interfaces config of None \<Rightarrow> io_lift (Ok None)
     | Some (comm, data) \<Rightarrow>
     io_then (io_try (detach_and_claim_interface nu dev comm)) (\<lambda>rc.
     case rc of Inl _ \<Rightarrow> io_lift (Ok None)
     | Inr ic \<Rightarrow>
     io_then (io_try (claim_interface nu dev data)) (\<lambda>rd.
     case rd of Inl _ \<Rightarrow> io_lift (Ok None)
     | Inr idata \<Rightarrow>
     io_then (retry_alt1 nu dev idata data (scan_endpoints comm data config)) (\<lambda>f.
     if found_in f \<noteq> 0 \<and> found_out f \<noteq> 0 then
       io_lift (Ok (Some
         \<lparr>iface_comm = ic, iface_data = Some idata, ep_in_addr = found_in f,
          ep_out_addr = found_out f, ep_int_addr = found_int f,
          comm_iface = comm, data_iface = data\<rparr>))
     else io_lift (Ok None)))))))"

fun find_in_list :: "('d, 'i, 'w) nusb \<Rightarrow> 'd list \<Rightarrow> ('w, 'i usb_device) io" where
  "find_in_list nu [] = io_lift (Err (DeviceNotFound
     (''no Android RNDIS device found '' @ [CHR 0xE2, CHR 0x80, CHR 0x94] @
      '' ensure USB tethering is enabled'')))"
| "find_in_list nu (dev # devs) =
     io_then (try_device nu dev) (\<lambda>r.
       case r of Some d \<Rightarrow> io_lift (Ok d) | None \<Rightarrow> find_in_list nu devs)"

definition find_rndis :: "('d, 'i, 'w) nusb \<Rightarrow> ('w, 'i usb_device) io" where
  "find_rndis nu = io_then (list_devices nu) (find_in_list nu)"

section \<open>Transfers\<close>

definition send_ctrl :: "('d, 'i, 'w) nusb \<Rightarrow> 'i usb_device \<Rightarrow> u8 list \<Rightarrow> ('w, nat) io" where
  "send_ctrl nu dev data =
     io_then (control_out nu (iface_comm dev) CDC_SEND_ENCAPSULATED 0 (ucast (comm_iface dev)) data
        USB_CTRL_TIMEOUT) (\<lambda>_.
     io_lift (Ok (length data)))"

definition recv_ctrl ::
  "('d, 'i, 'w) nusb \<Rightarrow> 'i usb_device \<Rightarrow> u8 list \<Rightarrow> ('w, nat \<times> u8 list) io" where
  "recv_ctrl nu dev buf =
     io_then (control_in nu (iface_comm dev) CDC_GET_ENCAPSULATED 0 (ucast (comm_iface dev))
        (of_nat (length buf)) USB_CTRL_TIMEOUT) (\<lambda>response.
     let n = min (length response) (length buf) in
     io_lift (and_then (subslice_to response n) (\<lambda>src.
       and_then (copy_range buf 0 n src) (\<lambda>buf. Ok (n, buf)))))"

definition bulk_iface :: "'i usb_device \<Rightarrow> 'i" where
  "bulk_iface dev = (case iface_data dev of Some i \<Rightarrow> i | None \<Rightarrow> iface_comm dev)"

definition send_bulk :: "('d, 'i, 'w) nusb \<Rightarrow> 'i usb_device \<Rightarrow> u8 list \<Rightarrow> ('w, nat) io" where
  "send_bulk nu dev data =
     io_then (open_endpoint nu (bulk_iface dev) (ep_out_addr dev)) (\<lambda>_ w.
     case transfer_out nu (bulk_iface dev) (ep_out_addr dev) data USB_BULK_TIMEOUT w of (c, w') \<Rightarrow>
       (case comp_status c of
          Xfer_Ok \<Rightarrow> (Ok (length data), w')
        | Xfer_Cancelled \<Rightarrow> (Err (UsbTransfer ''cancelled''), w')
        | Xfer_Failed e \<Rightarrow> (Err (UsbTransfer e), w')))"

text \<open>
  A read on an IN endpoint: the request is the buffer's length rounded up to whole packets
  (\<open>div_ceil\<close> panics on a zero packet size); a timed-out transfer is \<open>Cancelled\<close> and
  counts as no data.
\<close>

definition recv_on ::
  "('d, 'i, 'w) nusb \<Rightarrow> 'i \<Rightarrow> u8 \<Rightarrow> u8 list \<Rightarrow> nat \<Rightarrow> ('w, nat \<times> u8 list) io" where
  "recv_on nu iface ep buf timeout_ms =
     io_then (open_endpoint nu iface ep) (\<lambda>_ w.
     let max_pkt = max_packet_size nu iface ep in
     if max_pkt = 0 then (Panic, w)
     else
       let requested = ((length buf + max_pkt - 1) div max_pkt) * max_pkt in
       case transfer_in nu iface ep requested timeout_ms w of (c, w') \<Rightarrow>
         (case comp_status c of
            Xfer_Ok \<Rightarrow>
              (let copy_len = min (actual_len c) (length buf) in
               (and_then (subslice_to (comp_buffer c) copy_len) (\<lambda>src.
                and_then (copy_range buf 0 copy_len src) (\<lambda>buf. Ok (copy_len, buf))), w'))
          | Xfer_Cancelled \<Rightarrow> (Ok (0, buf), w')
          | Xfer_Failed e \<Rightarrow> (Err (UsbTransfer e), w')))"

definition recv_bulk ::
  "('d, 'i, 'w) nusb \<Rightarrow> 'i usb_device \<Rightarrow> u8 list \<Rightarrow> nat \<Rightarrow> ('w, nat \<times> u8 list) io" where
  "recv_bulk nu dev buf timeout_ms = recv_on nu (bulk_iface dev) (ep_in_addr dev) buf timeout_ms"

definition recv_int ::
  "('d, 'i, 'w) nusb \<Rightarrow> 'i usb_device \<Rightarrow> u8 list \<Rightarrow> nat \<Rightarrow> ('w, nat \<times> u8 list) io" where
  "recv_int nu dev buf timeout_ms =
     (if ep_int_addr dev = 0 then io_lift (Ok (0, buf))
      else recv_on nu (iface_comm dev) (ep_int_addr dev) buf timeout_ms)"

text \<open>\<open>take_endpoints\<close>: \<open>expect\<close> panics when an endpoint cannot be opened.\<close>

definition take_endpoints :: "('d, 'i, 'w) nusb \<Rightarrow> 'i usb_device \<Rightarrow> ('w, unit) io" where
  "take_endpoints nu dev =
     io_then (io_try (open_endpoint nu (bulk_iface dev) (ep_in_addr dev))) (\<lambda>r.
     case r of Inl _ \<Rightarrow> io_lift Panic
     | Inr _ \<Rightarrow>
     io_then (io_try (open_endpoint nu (bulk_iface dev) (ep_out_addr dev))) (\<lambda>r2.
     case r2 of Inl _ \<Rightarrow> io_lift Panic | Inr _ \<Rightarrow> io_lift (Ok ())))"

section \<open>Bounds of the transfers\<close>

text \<open>
  What the code relies on from \<open>nusb\<close>: packet sizes are positive, a completion's buffer
  holds the bytes it reports, and no call panics.
\<close>

definition transfers_ok :: "('d, 'i, 'w) nusb \<Rightarrow> bool" where
  "transfers_ok nu \<longleftrightarrow>
     (\<forall>i ep. 0 < max_packet_size nu i ep) \<and>
     (\<forall>i ep n t w. actual_len (fst (transfer_in nu i ep n t w)) \<le>
        length (comp_buffer (fst (transfer_in nu i ep n t w)))) \<and>
     (\<forall>i ep w. no_fault (fst (open_endpoint nu i ep w))) \<and>
     (\<forall>i r v x d t w. no_fault (fst (control_out nu i r v x d t w))) \<and>
     (\<forall>i r v x l t w. no_fault (fst (control_in nu i r v x l t w)))"

lemma recv_on_length:
  "recv_on nu i ep buf t w = (Ok (n, buf'), w') \<Longrightarrow> n \<le> length buf \<and> length buf' = length buf"
  by (auto simp: recv_on_def Let_def and_then_eq_Ok_iff copy_range_def
      elim!: io_then_OkE split: if_splits prod.splits transfer_status.splits)

lemma recv_bulk_length:
  "recv_bulk nu dev buf t w = (Ok (n, buf'), w') \<Longrightarrow> n \<le> length buf \<and> length buf' = length buf"
  by (simp add: recv_bulk_def recv_on_length)

lemma recv_ctrl_length:
  "recv_ctrl nu dev buf w = (Ok (n, buf'), w') \<Longrightarrow> n \<le> length buf \<and> length buf' = length buf"
  by (auto simp: recv_ctrl_def Let_def and_then_eq_Ok_iff copy_range_def
      elim!: io_then_OkE split: if_splits)

lemma recv_on_no_fault: "transfers_ok nu \<Longrightarrow> no_fault (fst (recv_on nu i ep buf t w))"
  unfolding recv_on_def
proof (rule no_fault_io_then)
  assume ok: "transfers_ok nu"
  then show "no_fault (fst (open_endpoint nu i ep w))" by (simp add: transfers_ok_def)
  fix u w1
  let ?n = "((length buf + max_packet_size nu i ep - 1) div max_packet_size nu i ep) *
      max_packet_size nu i ep"
  obtain c w2 where c: "transfer_in nu i ep ?n t w1 = (c, w2)" by fastforce
  from ok have "0 < max_packet_size nu i ep"
    and "actual_len (fst (transfer_in nu i ep ?n t w1)) \<le>
      length (comp_buffer (fst (transfer_in nu i ep ?n t w1)))"
    by (simp_all add: transfers_ok_def)
  with c have pos: "0 < max_packet_size nu i ep" and len: "actual_len c \<le> length (comp_buffer c)"
    by simp_all
  then show "no_fault (fst (let max_pkt = max_packet_size nu i ep in
     if max_pkt = 0 then (Panic, w1)
     else
       let requested = ((length buf + max_pkt - 1) div max_pkt) * max_pkt in
       case transfer_in nu i ep requested t w1 of (c, w') \<Rightarrow>
         (case comp_status c of
            Xfer_Ok \<Rightarrow>
              (let copy_len = min (actual_len c) (length buf) in
               (and_then (subslice_to (comp_buffer c) copy_len) (\<lambda>src.
                and_then (copy_range buf 0 copy_len src) (\<lambda>buf. Ok (copy_len, buf))), w'))
          | Xfer_Cancelled \<Rightarrow> (Ok (0, buf), w')
          | Xfer_Failed e \<Rightarrow> (Err (UsbTransfer e), w'))))"
    using c by (auto simp: Let_def copy_range_def split: transfer_status.split)
qed

lemma recv_bulk_no_fault: "transfers_ok nu \<Longrightarrow> no_fault (fst (recv_bulk nu dev buf t w))"
  by (simp add: recv_bulk_def recv_on_no_fault)

lemma send_bulk_no_fault: "transfers_ok nu \<Longrightarrow> no_fault (fst (send_bulk nu dev d w))"
  unfolding send_bulk_def
  by (rule no_fault_io_then)
    (auto simp: transfers_ok_def split: prod.split transfer_status.split)

lemma send_ctrl_no_fault: "transfers_ok nu \<Longrightarrow> no_fault (fst (send_ctrl nu dev d w))"
  unfolding send_ctrl_def
  by (rule no_fault_io_then) (simp_all add: transfers_ok_def io_lift_def)

lemma recv_ctrl_no_fault: "transfers_ok nu \<Longrightarrow> no_fault (fst (recv_ctrl nu dev buf w))"
  unfolding recv_ctrl_def
  by (rule no_fault_io_then) (simp_all add: transfers_ok_def io_lift_def copy_range_def Let_def)

section \<open>What the scans find\<close>

definition rndis_alt :: "alt_setting \<Rightarrow> bool" where
  "rndis_alt alt \<longleftrightarrow> is_rndis_interface (alt_class alt) (alt_subclass alt) (alt_protocol alt)"

lemma scan_alt_comm:
  "fst (scan_alt alt found) = (if rndis_alt alt then Some (interface_number alt) else fst found)"
  by (simp add: scan_alt_def rndis_alt_def Let_def split: prod.split)

lemma scan_fold_comm:
  "fst (fold scan_alt alts found) =
     (case filter rndis_alt alts of [] \<Rightarrow> fst found
      | ms \<Rightarrow> Some (interface_number (last ms)))"
  by (induction alts arbitrary: found) (auto simp: scan_alt_comm split: list.split)

lemma scan_fold_data:
  "snd (fold scan_alt alts found) = Some d \<Longrightarrow>
     snd found = Some d \<or> (\<exists>alt\<in>set alts. interface_number alt = d \<and> alt_class alt = 0x0A)"
proof (induction alts arbitrary: found)
  case (Cons alt alts)
  from Cons.IH [of "scan_alt alt found"] Cons.prems show ?case
    by (auto simp: scan_alt_def is_data_interface_def Let_def split: prod.splits if_splits)
qed simp

text \<open>Endpoint addresses keep their direction through every scan.\<close>

definition directions_ok :: "endpoints_found \<Rightarrow> bool" where
  "directions_ok f \<longleftrightarrow>
     (found_in f = 0 \<or> found_in f AND 0x80 = 0x80) \<and> found_out f AND 0x80 = 0"

lemma and_0x80_cases: "(a :: u8) AND 0x80 = 0 \<or> a AND 0x80 = 0x80"
proof (cases "bit a 7")
  case True
  have "a AND 0x80 = 0x80"
  proof (rule bit_word_eqI)
    fix n
    have "bit (0x80 :: u8) n \<longleftrightarrow> n = 7"
      using bit_exp_iff [where ?'a = "8 word", of 7 n] by auto
    with True show "bit (a AND 0x80) n = bit (0x80 :: u8) n" by (auto simp: bit_and_iff)
  qed
  then show ?thesis ..
next
  case False
  have "a AND 0x80 = 0"
  proof (rule bit_word_eqI)
    fix n
    have "bit (0x80 :: u8) n \<longleftrightarrow> n = 7"
      using bit_exp_iff [where ?'a = "8 word", of 7 n] by auto
    with False show "bit (a AND 0x80) n = bit (0 :: u8) n" by (auto simp: bit_and_iff)
  qed
  then show ?thesis ..
qed

lemma directions_scan_endpoint:
  "directions_ok f \<Longrightarrow> directions_ok (scan_endpoint b ep f)"
  by (auto simp: directions_ok_def scan_endpoint_def Let_def split: transfer_type.splits)

lemma directions_scan_endpoint_alt1:
  "directions_ok f \<Longrightarrow> directions_ok (scan_endpoint_alt1 ep f)"
  using and_0x80_cases [of "ep_address ep"]
  by (auto simp: directions_ok_def scan_endpoint_alt1_def Let_def)

lemma fold_invariant_simple: "(\<And>x s. P s \<Longrightarrow> P (f x s)) \<Longrightarrow> P s \<Longrightarrow> P (fold f xs s)"
  by (induction xs arbitrary: s) auto

lemma directions_scan_endpoints_alt:
  "directions_ok f \<Longrightarrow> directions_ok (scan_endpoints_alt c d alt f)"
  by (auto simp: scan_endpoints_alt_def Let_def
      intro: fold_invariant_simple [of directions_ok, OF directions_scan_endpoint])

lemma directions_scan_endpoints: "directions_ok (scan_endpoints c d config)"
  unfolding scan_endpoints_def
  by (rule fold_invariant_simple, erule directions_scan_endpoints_alt) (simp add: directions_ok_def)

lemma directions_scan_alt1: "directions_ok f \<Longrightarrow> directions_ok (scan_alt1 d alt f)"
  by (auto simp: scan_alt1_def
      intro: fold_invariant_simple [of directions_ok, OF directions_scan_endpoint_alt1])

lemma directions_retry_alt1:
  assumes "directions_ok f" and "retry_alt1 nu dev i d f w = (Ok f', w')"
  shows "directions_ok f'"
  using assms fold_invariant_simple [of directions_ok, OF directions_scan_alt1, OF _ assms(1)]
  by (auto simp: retry_alt1_def elim!: io_then_OkE split: if_splits sum.splits)

text \<open>What the code relies on when it uses a device: two bulk endpoints, one in each direction.\<close>

definition device_ok :: "'i usb_device \<Rightarrow> bool" where
  "device_ok dev \<longleftrightarrow>
     ep_in_addr dev AND 0x80 = 0x80 \<and> ep_out_addr dev AND 0x80 = 0 \<and> ep_out_addr dev \<noteq> 0"

text \<open>
  A bulk endpoint that the configuration declares on the comm or the data interface, and the
  scans, which find no others.
\<close>

definition bulk_endpoint :: "configuration \<Rightarrow> u8 \<Rightarrow> u8 \<Rightarrow> u8 \<Rightarrow> bool" where
  "bulk_endpoint config comm data addr \<longleftrightarrow>
     (\<exists>alt\<in>set (concat config). interface_number alt \<in> {comm, data} \<and>
        (\<exists>e\<in>set (alt_endpoints alt). ep_type e = Bulk \<and> ep_address e = addr))"

definition declared_ok :: "configuration \<Rightarrow> u8 \<Rightarrow> u8 \<Rightarrow> endpoints_found \<Rightarrow> bool" where
  "declared_ok config comm data f \<longleftrightarrow>
     (found_in f = 0 \<or> bulk_endpoint config comm data (found_in f)) \<and>
     (found_out f = 0 \<or> bulk_endpoint config comm data (found_out f))"

lemma declared_scan_endpoint:
  assumes "ep_type e = Bulk \<Longrightarrow> bulk_endpoint config c d (ep_address e)" and "declared_ok config c d f"
  shows "declared_ok config c d (scan_endpoint b e f)" and "declared_ok config c d (scan_endpoint_alt1 e f)"
  using assms
  by (cases "ep_type e"; simp add: declared_ok_def scan_endpoint_def scan_endpoint_alt1_def Let_def)+

lemma fold_members: "(\<And>x s. x \<in> set xs \<Longrightarrow> P s \<Longrightarrow> P (f x s)) \<Longrightarrow> P s \<Longrightarrow> P (fold f xs s)"
  by (induction xs arbitrary: s) auto

lemma bulk_endpointI:
  "alt \<in> set (concat config) \<Longrightarrow> interface_number alt \<in> {c, d} \<Longrightarrow> e \<in> set (alt_endpoints alt) \<Longrightarrow>
   ep_type e = Bulk \<Longrightarrow> bulk_endpoint config c d (ep_address e)"
  unfolding bulk_endpoint_def by blast

lemma declared_scan_alt:
  assumes "alt \<in> set (concat config)" and "declared_ok config c d f"
  shows "declared_ok config c d (scan_endpoints_alt c d alt f)" and "declared_ok config c d (scan_alt1 d alt f)"
proof -
  note bulk = bulk_endpointI [OF assms(1)]
  have one: "declared_ok config c d (fold (scan_endpoint b) (alt_endpoints alt) f)"
    if "interface_number alt \<in> {c, d}" for b
    by (rule fold_members, rule declared_scan_endpoint(1), rule bulk [OF that]) (simp_all add: assms(2))
  have two: "declared_ok config c d (fold scan_endpoint_alt1 (alt_endpoints alt) f)"
    if "interface_number alt \<in> {c, d}"
    by (rule fold_members, rule declared_scan_endpoint(2), rule bulk [OF that]) (simp_all add: assms(2))
  show "declared_ok config c d (scan_endpoints_alt c d alt f)"
    using one assms(2) unfolding scan_endpoints_alt_def Let_def by simp
  show "declared_ok config c d (scan_alt1 d alt f)"
    using two assms(2) unfolding scan_alt1_def by simp
qed

lemma declared_scan_endpoints: "declared_ok config c d (scan_endpoints c d config)"
  unfolding scan_endpoints_def
  by (rule fold_members, rule declared_scan_alt) (simp_all add: declared_ok_def)

lemma declared_scan_alt1:
  "declared_ok config c d f \<Longrightarrow> declared_ok config c d (fold (scan_alt1 d) (concat config) f)"
  by (rule fold_members, rule declared_scan_alt)

text \<open>The descriptors of a device are the same whenever they are read.\<close>

definition configs_fixed :: "('d, 'i, 'w) nusb \<Rightarrow> ('d \<Rightarrow> configuration) \<Rightarrow> bool" where
  "configs_fixed nu conf \<longleftrightarrow>
     (\<forall>dev w config w'. active_configuration nu dev w = (Ok config, w') \<longrightarrow> config = conf dev)"

lemma declared_retry:
  assumes "configs_fixed nu conf" and "declared_ok (conf dev) c d f" and "retry_alt1 nu dev i d f w = (Ok f', w')"
  shows "declared_ok (conf dev) c d f'"
proof -
  have "f' = f \<or> (\<exists>config w1 w2. active_configuration nu dev w1 = (Ok config, w2) \<and>
      f' = fold (scan_alt1 d) (concat config) f)"
    using assms(3) by (fastforce simp: retry_alt1_def io_try_eq_Inr elim!: io_then_OkE split: if_splits sum.splits)
  then have "f' = f \<or> f' = fold (scan_alt1 d) (concat (conf dev)) f"
    using assms(1) by (auto simp: configs_fixed_def)
  with assms(2) declared_scan_alt1 [OF assms(2)] show ?thesis by auto
qed

lemma try_device_ok:
  assumes "try_device nu dev w = (Ok (Some d), w')" and fixed: "configs_fixed nu conf"
  shows "device_ok d \<and> choose_interfaces (conf dev) = Some (comm_iface d, data_iface d) \<and>
    bulk_endpoint (conf dev) (comm_iface d) (data_iface d) (ep_in_addr d) \<and>
    bulk_endpoint (conf dev) (comm_iface d) (data_iface d) (ep_out_addr d)"
proof -
  from assms(1) obtain config w1 w2 comm data ic idata f w3 w4 where
    conf: "active_configuration nu dev w1 = (Ok config, w2)" and
    choose: "choose_interfaces config = Some (comm, data)" and
    retry: "retry_alt1 nu dev idata data (scan_endpoints comm data config) w3 = (Ok f, w4)" and
    nz: "found_in f \<noteq> 0" "found_out f \<noteq> 0" and
    d: "d = \<lparr>iface_comm = ic, iface_data = Some idata, ep_in_addr = found_in f,
          ep_out_addr = found_out f, ep_int_addr = found_int f,
          comm_iface = comm, data_iface = data\<rparr>"
    unfolding try_device_def
    by (auto simp: io_try_eq_Inr elim!: io_then_OkE
        split: sum.splits option.splits if_splits)
  have c: "config = conf dev" using fixed conf by (auto simp: configs_fixed_def)
  have "directions_ok f"
    by (rule directions_retry_alt1 [OF directions_scan_endpoints retry])
  moreover have "declared_ok (conf dev) comm data f"
    by (rule declared_retry [OF fixed _ retry]) (simp add: c declared_scan_endpoints)
  ultimately show ?thesis
    using nz choose by (auto simp: d c device_ok_def directions_ok_def declared_ok_def)
qed

lemma find_in_list_ok:
  assumes "find_in_list nu devs w = (Ok d, w')"
  shows "\<exists>dev\<in>set devs. \<exists>w1 w2. try_device nu dev w1 = (Ok (Some d), w2)"
  using assms
proof (induction devs arbitrary: w)
  case (Cons dev devs)
  then show ?case by (fastforce elim!: io_then_OkE split: option.splits)
qed (simp add: io_lift_def)

lemma choose_interfaces_comm:
  assumes "choose_interfaces config = Some (c, d)"
  shows "\<exists>alt\<in>set (concat config). rndis_alt alt \<and> interface_number alt = c"
proof -
  from assms have "fst (scan_interfaces config) = Some c"
    by (auto simp: choose_interfaces_def split: prod.splits option.splits)
  then obtain ms where ms: "filter rndis_alt (concat config) = ms" "ms \<noteq> []"
      and c: "interface_number (last ms) = c"
    by (auto simp: scan_interfaces_def scan_fold_comm split: list.splits)
  from ms have "last ms \<in> set (filter rndis_alt (concat config))" by (metis last_in_set)
  with c show ?thesis by auto
qed

text \<open>
  A concrete instance of the foreign calls, for the witnesses: one device with a given
  configuration, whose replies are scripted and whose sent messages are recorded.
\<close>

record script =
  ctrl_sent :: "u8 list list"
  ctrl_replies :: "u8 list list"
  bulk_sent :: "u8 list list"
  bulk_replies :: "u8 list list"

definition script_start :: script where
  "script_start = \<lparr>ctrl_sent = [], ctrl_replies = [], bulk_sent = [], bulk_replies = []\<rparr>"

definition scripted_nusb :: "configuration \<Rightarrow> (unit, unit, script) nusb" where
  "scripted_nusb config =
     \<lparr>list_devices = (\<lambda>w. (Ok [()], w)),
      open_device = (\<lambda>_ w. (Ok (), w)),
      active_configuration = (\<lambda>_ w. (Ok config, w)),
      detach_and_claim_interface = (\<lambda>_ _ w. (Ok (), w)),
      claim_interface = (\<lambda>_ _ w. (Ok (), w)),
      set_alt_setting = (\<lambda>_ _ w. (Ok (), w)),
      control_out = (\<lambda>_ _ _ _ data _ w. (Ok (), w\<lparr>ctrl_sent := ctrl_sent w @ [data]\<rparr>)),
      control_in = (\<lambda>_ _ _ _ _ _ w.
        case ctrl_replies w of
          [] \<Rightarrow> (Err (UsbTransfer ''timeout''), w)
        | r # rs \<Rightarrow> (Ok r, w\<lparr>ctrl_replies := rs\<rparr>)),
      open_endpoint = (\<lambda>_ _ w. (Ok (), w)),
      max_packet_size = (\<lambda>_ _. 512),
      transfer_out = (\<lambda>_ _ data _ w.
        (\<lparr>comp_status = Xfer_Ok, actual_len = length data, comp_buffer = data\<rparr>,
         w\<lparr>bulk_sent := bulk_sent w @ [data]\<rparr>)),
      transfer_in = (\<lambda>_ _ _ _ w.
        case bulk_replies w of
          [] \<Rightarrow> (\<lparr>comp_status = Xfer_Cancelled, actual_len = 0, comp_buffer = []\<rparr>, w)
        | r # rs \<Rightarrow> (\<lparr>comp_status = Xfer_Ok, actual_len = length r, comp_buffer = r\<rparr>,
            w\<lparr>bulk_replies := rs\<rparr>))\<rparr>"

text \<open>A phone: RNDIS control on interface 0, data on interface 1, endpoints 0x81 and 0x02.\<close>

definition phone_config :: configuration where
  "phone_config =
     [[\<lparr>interface_number = 0, alternate_setting = 0, alt_class = 0xE0, alt_subclass = 1,
        alt_protocol = 3, alt_endpoints = [\<lparr>ep_address = 0x83, ep_type = Interrupt\<rparr>]\<rparr>],
      [\<lparr>interface_number = 1, alternate_setting = 0, alt_class = 0x0A, alt_subclass = 0,
        alt_protocol = 0, alt_endpoints =
          [\<lparr>ep_address = 0x81, ep_type = Bulk\<rparr>, \<lparr>ep_address = 0x02, ep_type = Bulk\<rparr>]\<rparr>]]"

definition phone :: "unit usb_device" where
  "phone = \<lparr>iface_comm = (), iface_data = Some (), ep_in_addr = 0x81, ep_out_addr = 0x02,
     ep_int_addr = 0x83, comm_iface = 0, data_iface = 1\<rparr>"

lemma find_phone:
  "find_rndis (scripted_nusb phone_config) w = (Ok phone, w)"
  by (simp add: find_rndis_def try_device_def io_then_def io_try_def io_lift_def scripted_nusb_def
      choose_interfaces_def scan_interfaces_def scan_alt_def phone_config_def is_rndis_interface_def
      is_data_interface_def scan_endpoints_def scan_endpoints_alt_def scan_endpoint_def
      retry_alt1_def phone_def)

text \<open>
  Claim C39: a device that the search returns can be used, if its descriptors do not change meanwhile. It
  is one of the listed devices; its comm interface is declared there with one of the six class,
  subclass and protocol codes of tethering, and the data interface is the one its configuration calls
  for; its two endpoints are bulk endpoints that the configuration declares on one of these interfaces,
  set and pointing in their directions.
\<close>

theorem find_rndis_sound:
  assumes "find_rndis nu w = (Ok d, w')" and "configs_fixed nu conf"
  shows "\<exists>devs w1 dev alt. list_devices nu w = (Ok devs, w1) \<and> dev \<in> set devs \<and>
    choose_interfaces (conf dev) = Some (comm_iface d, data_iface d) \<and>
    alt \<in> set (concat (conf dev)) \<and> interface_number alt = comm_iface d \<and>
    (alt_class alt, alt_subclass alt, alt_protocol alt) \<in>
      {(0xE0, 0x01, 0x03), (0x02, 0x02, 0x03), (0x02, 0xFF, 0x03), (0xFF, 0x01, 0x03),
       (0x02, 0x0D, 0x00), (0x02, 0x06, 0x00)} \<and>
    bulk_endpoint (conf dev) (comm_iface d) (data_iface d) (ep_in_addr d) \<and> ep_in_addr d AND 0x80 = 0x80 \<and>
    bulk_endpoint (conf dev) (comm_iface d) (data_iface d) (ep_out_addr d) \<and> ep_out_addr d AND 0x80 = 0 \<and>
    ep_out_addr d \<noteq> 0"
proof -
  obtain devs w1 where l: "list_devices nu w = (Ok devs, w1)" "find_in_list nu devs w1 = (Ok d, w')"
    using assms(1) by (auto simp: find_rndis_def io_then_eq_Ok_iff)
  then obtain dev w2 w3 where dev: "dev \<in> set devs" "try_device nu dev w2 = (Ok (Some d), w3)"
    using find_in_list_ok [OF l(2)] by blast
  note ok = try_device_ok [OF dev(2) assms(2)]
  obtain alt where "alt \<in> set (concat (conf dev))" "rndis_alt alt" "interface_number alt = comm_iface d"
    using choose_interfaces_comm [of "conf dev"] ok by blast
  with l(1) dev(1) ok show ?thesis
    unfolding rndis_alt_def is_rndis_interface_def device_ok_def by blast
qed

theorem find_rndis_sound_witness:
  "find_rndis (scripted_nusb phone_config) script_start = (Ok phone, script_start) \<and>
   bulk_endpoint phone_config 0 1 (ep_in_addr phone) \<and> bulk_endpoint phone_config 0 1 (ep_out_addr phone)"
proof -
  have "configs_fixed (scripted_nusb phone_config) (\<lambda>_. phone_config)"
    by (simp add: configs_fixed_def scripted_nusb_def)
  from find_rndis_sound [OF find_phone this] show ?thesis
    using find_phone by (auto simp: phone_def)
qed

end
