(* ===== verification/Proto_Rndis.thy ===== *)
theory Proto_Rndis
  imports Rndis Usb_Device
begin

text \<open>
  \<^verbatim>\<open>src/proto_driver.rs\<close> and \<^verbatim>\<open>src/proto_rndis.rs\<close>: the \<open>ProtocolDriver\<close> trait and its
  only implementation. The trait's data path is the locale \<open>protocol_driver\<close>: what a
  caller of \<open>wrap_frame\<close> and \<open>unwrap_data\<close> relies on, interpreted here on the RNDIS
  driver and used by the I/O and TX threads. \<open>driver_init\<close> is the control handshake.
\<close>

section \<open>The driver\<close>

text \<open>\<open>RndisDriver\<close> holds nothing but the protocol state.\<close>

definition driver_new :: rndis_state where
  "driver_new = rndis_state_default"

definition driver_name :: string where
  "driver_name = ''rndis''"

definition driver_mac :: "rndis_state \<Rightarrow> mac" where
  "driver_mac st = mac_addr st"

definition wrap_frame :: "u8 list \<Rightarrow> u8 list \<Rightarrow> (nat \<times> u8 list) outcome" where
  "wrap_frame eth out = build_data_packet out eth"

definition unwrap_data ::
  "u8 list \<Rightarrow> (u8 list \<Rightarrow> 's \<Rightarrow> 's outcome) \<Rightarrow> 's \<Rightarrow> 's outcome" where
  "unwrap_data usb_data on_frame s = for_each_frame on_frame usb_data 0 s"

text \<open>
  The loop over the two address OIDs: an answer that parses replaces the MAC address, any
  other \<open>Result\<close> leaves it; a transfer error ends \<open>init\<close>.
\<close>

fun query_macs ::
  "('d, 'i, 'w) nusb \<Rightarrow> 'i usb_device \<Rightarrow> u32 list \<Rightarrow> u8 list \<Rightarrow> rndis_state \<Rightarrow>
   ('w, u8 list \<times> rndis_state) io" where
  "query_macs nu usb [] buf st = io_lift (Ok (buf, st))"
| "query_macs nu usb (oid # oids) buf st =
     io_then (io_lift (build_query buf oid st)) (\<lambda>(len, buf, st).
     io_then (io_lift (subslice_to buf len)) (\<lambda>msg.
     io_then (send_ctrl nu usb msg) (\<lambda>_.
     io_then (recv_ctrl nu usb buf) (\<lambda>(n, buf).
     io_then (io_lift (subslice_to buf n)) (\<lambda>resp.
     io_then (io_try (io_lift (parse_query_cmplt resp (replicate 6 0)))) (\<lambda>r.
     let st = (case r of Inr (_, out) \<Rightarrow> st\<lparr>mac_addr := mac_of_bytes out\<rparr> | Inl _ \<Rightarrow> st) in
     query_macs nu usb oids buf st))))))"

definition packet_filter :: u32 where
  "packet_filter =
     RNDIS_PACKET_TYPE_DIRECTED OR RNDIS_PACKET_TYPE_MULTICAST OR
     RNDIS_PACKET_TYPE_ALL_MULTICAST OR RNDIS_PACKET_TYPE_BROADCAST"

definition driver_init ::
  "('d, 'i, 'w) nusb \<Rightarrow> 'i usb_device \<Rightarrow> rndis_state \<Rightarrow> ('w, rndis_state) io" where
  "driver_init nu usb st = (let buf = replicate RNDIS_BUF_SIZE 0 in
     io_then (io_lift (build_init buf st)) (\<lambda>(len, buf, st).
     io_then (io_lift (subslice_to buf len)) (\<lambda>msg.
     io_then (send_ctrl nu usb msg) (\<lambda>_.
     io_then (recv_ctrl nu usb buf) (\<lambda>(n, buf).
     io_then (io_lift (subslice_to buf n)) (\<lambda>resp.
     io_then (io_lift (parse_init_cmplt resp st)) (\<lambda>st.
     io_then (query_macs nu usb [OID_802_3_CURRENT_ADDRESS, OID_802_3_PERMANENT_ADDRESS] buf st)
       (\<lambda>(buf, st).
     io_then (io_lift (build_set buf OID_GEN_CURRENT_PACKET_FILTER
        (u32_to_le_bytes packet_filter) st)) (\<lambda>(len, buf, st).
     io_then (io_lift (subslice_to buf len)) (\<lambda>msg.
     io_then (send_ctrl nu usb msg) (\<lambda>_.
     io_then (recv_ctrl nu usb buf) (\<lambda>(n, buf).
     io_then (io_lift (subslice_to buf n)) (\<lambda>resp.
     io_then (io_try (io_lift (parse_set_cmplt resp))) (\<lambda>_.
     io_lift (Ok (st\<lparr>link_up := True\<rparr>))))))))))))))))"

text \<open>\<open>keepalive\<close>: the results of both transfers are dropped (\<open>let _ =\<close>).\<close>

definition driver_keepalive ::
  "('d, 'i, 'w) nusb \<Rightarrow> 'i usb_device \<Rightarrow> rndis_state \<Rightarrow> ('w, rndis_state) io" where
  "driver_keepalive nu usb st = (let buf = replicate RNDIS_BUF_SIZE 0 in
     io_then (io_lift (build_keepalive buf st)) (\<lambda>(klen, buf, st).
     if klen > 0 then
       io_then (io_lift (subslice_to buf klen)) (\<lambda>msg.
       io_then (io_try (send_ctrl nu usb msg)) (\<lambda>_.
       io_then (io_try (recv_ctrl nu usb buf)) (\<lambda>_.
       io_lift (Ok st))))
     else io_lift (Ok st)))"

section \<open>The contract of a protocol driver\<close>

text \<open>
  \<open>overhead\<close> is what wrapping adds to a frame and \<open>frames_of\<close> the frames of a transfer.
  Wrapping fits or is refused; unwrapping calls the handler on the frames of a transfer in
  order; the transfer that wrapping makes holds the wrapped frame and nothing else.
\<close>

locale protocol_driver =
  fixes wrap :: "u8 list \<Rightarrow> u8 list \<Rightarrow> (nat \<times> u8 list) outcome"
    and unwrap :: "u8 list \<Rightarrow> (u8 list \<Rightarrow> 's \<Rightarrow> 's outcome) \<Rightarrow> 's \<Rightarrow> 's outcome"
    and frames_of :: "u8 list \<Rightarrow> u8 list list"
    and message_of :: "u8 list \<Rightarrow> u8 list"
    and overhead :: nat
  assumes length_message: "length (message_of f) = overhead + length f"
    and wrap_fits: "overhead + length f \<le> length buf \<Longrightarrow>
      wrap f buf = Ok (overhead + length f, message_of f @ drop (overhead + length f) buf)"
    and wrap_refused: "length buf < overhead + length f \<Longrightarrow>
      wrap f buf = Err (BufferTooSmall (overhead + length f) (length buf))"
    and unwrap_frames: "unwrap d on_frame s = fold_outcome on_frame (frames_of d) s"
    and frames_message: "f \<noteq> [] \<Longrightarrow> overhead + length f < 2 ^ 32 \<Longrightarrow> frames_of (message_of f) = [f]"
    and frames_nonempty: "f \<in> set (frames_of d) \<Longrightarrow> f \<noteq> []"
    and frames_fit: "sum_list (map length (frames_of d)) \<le> length d"
begin

lemma wrap_no_fault: "no_fault (wrap f buf)"
  by (cases "overhead + length f \<le> length buf") (simp_all add: wrap_fits wrap_refused)

lemma wrapped_prefix:
  "wrap f buf = Ok (n, buf') \<Longrightarrow> n = overhead + length f \<and> take n buf' = message_of f"
  by (cases "overhead + length f \<le> length buf")
    (auto simp: wrap_fits wrap_refused length_message)

lemma unwrap_no_fault:
  "(\<And>f s. f \<in> set (frames_of d) \<Longrightarrow> no_fault (on_frame f s)) \<Longrightarrow> no_fault (unwrap d on_frame s)"
  by (simp add: unwrap_frames no_fault_fold_outcome)

text \<open>One side wraps, the other unwraps: the handler runs once, on the frame.\<close>

lemma exchange:
  assumes "wrap f buf = Ok (n, buf')" and "f \<noteq> []" and "n < 2 ^ 32"
  shows "unwrap (take n buf') on_frame s = on_frame f s"
proof -
  have "frames_of (take n buf') = [f]"
    using wrapped_prefix [OF assms(1)] assms(2,3) frames_message by metis
  then show ?thesis by (simp add: unwrap_frames)
qed

lemma frame_length_le: "f \<in> set (frames_of d) \<Longrightarrow> length f \<le> length d"
  using frames_fit [of d] member_le_sum_list [of "length f" "map length (frames_of d)"] by force

end

text \<open>The frames of a transfer under RNDIS, as a total function.\<close>

definition rndis_frame_list :: "u8 list \<Rightarrow> u8 list list" where
  "rndis_frame_list d = (case rndis_frames d of Ok fs \<Rightarrow> fs | _ \<Rightarrow> [])"

lemma rndis_frames_list: "rndis_frames d = Ok (rndis_frame_list d)"
  using rndis_frames_from_ok [of d 0] by (auto simp: rndis_frame_list_def rndis_frames_def)

lemma rndis_frames_within: "frames_within d 0 (rndis_frame_list d)"
  using rndis_frames_from_ok [of d 0] by (auto simp: rndis_frame_list_def rndis_frames_def)

interpretation rndis_drv:
  protocol_driver wrap_frame unwrap_data rndis_frame_list data_message 44
proof unfold_locales
  fix f buf d :: "u8 list"
  show "length (data_message f) = 44 + length f" by simp
  show "44 + length f \<le> length buf \<Longrightarrow>
      wrap_frame f buf = Ok (44 + length f, data_message f @ drop (44 + length f) buf)"
    by (simp add: wrap_frame_def build_data_packet_ok)
  show "length buf < 44 + length f \<Longrightarrow>
      wrap_frame f buf = Err (BufferTooSmall (44 + length f) (length buf))"
    by (simp add: wrap_frame_def build_data_packet_small)
  show "unwrap_data d on_frame s = fold_outcome on_frame (rndis_frame_list d) s"
    for on_frame :: "u8 list \<Rightarrow> 's \<Rightarrow> 's outcome" and s
    using rndis_frames_list [of d] by (simp add: unwrap_data_def for_each_frame_fold rndis_frames_def)
  show "f \<noteq> [] \<Longrightarrow> 44 + length f < 2 ^ 32 \<Longrightarrow> rndis_frame_list (data_message f) = [f]"
    using rndis_frames_from_items [of "[Data f]" "[]" "[]"]
    by (simp add: rndis_frame_list_def rndis_frames_def carries_def)
  show "f \<in> set (rndis_frame_list d) \<Longrightarrow> f \<noteq> []"
    using frames_within_nonempty [OF rndis_frames_within] by blast
  show "sum_list (map length (rndis_frame_list d)) \<le> length d"
    using frames_within_length [OF rndis_frames_within] by simp
qed

section \<open>The handshake\<close>

text \<open>
  What the driver makes of an address answer: the address it carries, zero padded; an
  answer that does not parse keeps the address known so far.
\<close>

definition mac_after :: "mac \<Rightarrow> u8 list \<Rightarrow> mac" where
  "mac_after m resp = (case parse_query_cmplt resp (replicate 6 0) of
     Ok (_, out) \<Rightarrow> mac_of_bytes out | _ \<Rightarrow> m)"

lemma parse_query_length:
  "parse_query_cmplt resp out = Ok (n, out') \<Longrightarrow> n \<le> length out \<and> length out' = length out"
  by (auto simp: parse_query_cmplt_def Let_def and_then_eq_Ok_iff copy_range_def split: if_splits)

lemma build_buffer_length:
  "build_init buf st = Ok (n, buf', st') \<Longrightarrow> length buf' = length buf"
  "build_query buf oid st = Ok (n, buf', st') \<Longrightarrow> length buf' = length buf"
  "build_set buf oid data st = Ok (n, buf', st') \<Longrightarrow> length buf' = length buf"
  by (auto simp: build_issue
      issue_request_def Let_def split: if_splits)

text \<open>The scripted device: what a control transfer does to the script.\<close>

lemma send_ctrl_script [io_run]:
  "send_ctrl (scripted_nusb config) dev data w =
     (Ok (length data), w\<lparr>ctrl_sent := ctrl_sent w @ [data]\<rparr>)"
  by (simp add: send_ctrl_def io_then_def io_lift_def scripted_nusb_def)

text \<open>A buffer after a message was written over its front.\<close>

definition overlay :: "u8 list \<Rightarrow> u8 list \<Rightarrow> u8 list" where
  "overlay m buf = m @ drop (length m) buf"

lemma length_overlay [simp]: "length (overlay m buf) = max (length m) (length buf)"
  by (simp add: overlay_def)

lemma take_overlay [simp]: "n = length m \<Longrightarrow> take n (overlay m buf) = m"
  by (simp add: overlay_def)

lemma recv_ctrl_script:
  "recv_ctrl (scripted_nusb config) dev buf w =
     (case ctrl_replies w of
        [] \<Rightarrow> (Err (UsbTransfer ''timeout''), w)
      | r # rs \<Rightarrow> if length r \<le> length buf
          then (Ok (length r, overlay r buf), w\<lparr>ctrl_replies := rs\<rparr>)
          else (Ok (length buf, take (length buf) r), w\<lparr>ctrl_replies := rs\<rparr>))"
  by (auto simp: recv_ctrl_def io_then_def io_lift_def scripted_nusb_def copy_range_0 Let_def
      overlay_def split: list.splits)

lemma issue_request_fits:
  "length (request_wire (request_id st + 1) req) \<le> length buf \<Longrightarrow> issue_request req buf st =
     (let m = request_wire (request_id st + 1) req in
      Ok (length m, overlay m buf, st\<lparr>request_id := request_id st + 1\<rparr>))"
  by (simp add: issue_request_def overlay_def Let_def)

lemma length_request_wire:
  "length (request_wire rid Init_Req) = 24"
  "length (request_wire rid (Query_Req oid)) = 28"
  "length (request_wire rid (Set_Req oid data)) = 28 + length data"
  by simp_all

lemma parse_query_value:
  "(\<exists>n out. parse_query_cmplt resp (replicate 6 0) = Ok (n, out) \<and> mac_after m resp = mac_of_bytes out) \<or>
   (\<exists>e. parse_query_cmplt resp (replicate 6 0) = Err e \<and> mac_after m resp = m)"
  using completion_parsers_safe(2) [of resp "replicate 6 0"]
  by (cases "parse_query_cmplt resp (replicate 6 0)") (auto simp: mac_after_def)

lemma query_macs_script:
  assumes "ctrl_replies w = r # rs" and "length r \<le> length buf" and "28 \<le> length buf"
  shows "query_macs (scripted_nusb config) dev (oid # oids) buf st w =
    query_macs (scripted_nusb config) dev oids
      (overlay r (overlay (request_wire (request_id st + 1) (Query_Req oid)) buf))
      (st\<lparr>request_id := request_id st + 1, mac_addr := mac_after (mac_addr st) r\<rparr>)
      (w\<lparr>ctrl_sent := ctrl_sent w @ [request_wire (request_id st + 1) (Query_Req oid)],
         ctrl_replies := rs\<rparr>)"
  using parse_query_value [of r "mac_addr st"] assms
  by (elim disjE exE conjE) (simp_all add: build_issue issue_request_fits Let_def
      length_request_wire io_then_def io_try_def io_lift_def send_ctrl_script recv_ctrl_script
      del: request_wire.simps)

lemma query_macs_two:
  assumes "ctrl_replies w = [r1, r2, r3]" and "length r1 \<le> length buf" and "length r2 \<le> length buf"
    and "28 \<le> length buf"
  shows "query_macs (scripted_nusb config) dev [oid1, oid2] buf st w =
      (Ok (overlay r2 (overlay (request_wire (request_id st + 2) (Query_Req oid2))
          (overlay r1 (overlay (request_wire (request_id st + 1) (Query_Req oid1)) buf))),
         st\<lparr>request_id := request_id st + 2, mac_addr := mac_after (mac_after (mac_addr st) r1) r2\<rparr>),
       w\<lparr>ctrl_sent := ctrl_sent w @ [request_wire (request_id st + 1) (Query_Req oid1),
           request_wire (request_id st + 2) (Query_Req oid2)],
         ctrl_replies := [r3]\<rparr>)"
proof -
  have "1 + (1 + request_id st) = 2 + request_id st" by simp
  then show ?thesis
    using assms
    by (simp add: query_macs_script [where rs = "[r2, r3]"] query_macs_script [where rs = "[r3]"]
        io_lift_def length_request_wire add.commute del: request_wire.simps query_macs.simps(2))
qed

text \<open>
  Claim C19: the RNDIS handshake. Against a device that answers four control requests, the first
  with an acceptable INIT completion, \<open>driver_init\<close> sends exactly INIT, the queries of the current
  and of the permanent address and the packet filter, with request ids 1 to 4 in this order, reports
  the link up, and keeps the device's limits; the address is the permanent one when that answer
  parses, else the current one.
\<close>

theorem init_handshake:
  assumes "ctrl_replies w = [r0, r1, r2, r3]"
    and "\<forall>r \<in> {r0, r1, r2, r3}. length r \<le> RNDIS_BUF_SIZE"
    and "parse_init_cmplt r0 (driver_new\<lparr>request_id := 1\<rparr>) = Ok st0"
  shows "driver_init (scripted_nusb config) dev driver_new w =
    (Ok (st0\<lparr>request_id := 4, mac_addr := mac_after (mac_after (mac_addr st0) r1) r2, link_up := True\<rparr>),
     w\<lparr>ctrl_sent := ctrl_sent w @
          [request_wire 1 Init_Req, request_wire 2 (Query_Req OID_802_3_CURRENT_ADDRESS),
           request_wire 3 (Query_Req OID_802_3_PERMANENT_ADDRESS),
           request_wire 4 (Set_Req OID_GEN_CURRENT_PACKET_FILTER [15, 0, 0, 0])],
       ctrl_replies := []\<rparr>)"
proof -
  have rid: "request_id st0 = 1"
    using assms(3) by (auto simp: parse_init_cmplt_def and_then_eq_Ok_iff split: if_splits)
  have filt: "u32_to_le_bytes packet_filter = [15, 0, 0, 0]"
    by (simp add: packet_filter_def u32_to_le_bytes_def)
  define buf :: "u8 list" where "buf = replicate RNDIS_BUF_SIZE 0"
  have len: "length buf = 32768" by (simp add: buf_def)
  note build = build_issue
  consider "parse_set_cmplt r3 = Ok ()" | e where "parse_set_cmplt r3 = Err e"
    using completion_parsers_safe(3) [of r3]
    by (cases "parse_set_cmplt r3") auto
  note parse_set = this
  have le: "\<forall>r \<in> {r0, r1, r2, r3}. length r \<le> 32768" using assms(2) by simp
  from parse_set show ?thesis
    by cases (use assms(1,3) le len rid in \<open>simp_all add: driver_init_def buf_def [symmetric]
        build filt query_macs_two [of _ r1 r2 r3] issue_request_fits length_request_wire
        io_then_def io_try_def io_lift_def send_ctrl_script recv_ctrl_script Let_def
        driver_new_def rndis_state_default_def
        del: request_wire.simps query_macs.simps RNDIS_BUF_SIZE_def\<close>)
qed

text \<open>A device that names its current address only.\<close>

definition phone_replies :: "u8 list list" where
  "phone_replies =
     [le_words [RNDIS_MSG_INIT_C, 52, 1, RNDIS_STATUS_SUCCESS, 1, 0, 1, 0, 1, 0, 0x4000, 0, 0],
      le_words [RNDIS_MSG_QUERY_C, 30, 2, RNDIS_STATUS_SUCCESS, 6, 16] @ [2, 0x11, 0x22, 0x33, 0x44, 0x55],
      le_words [RNDIS_MSG_QUERY_C, 24, 3, 0xC00000BB, 0, 0],
      le_words [RNDIS_MSG_SET_C, 16, 4, RNDIS_STATUS_SUCCESS]]"

lemma phone_init_cmplt:
  "parse_init_cmplt (phone_replies ! 0) st = Ok (st\<lparr>max_transfer_size := 0x4000, medium := 0\<rparr>)"
  using parse_init_cmplt_words [of "[RNDIS_MSG_INIT_C, 52, 1, RNDIS_STATUS_SUCCESS, 1, 0, 1, 0, 1, 0, 0x4000, 0, 0]" "[]" st]
  unfolding phone_replies_def by simp

theorem init_handshake_witness:
  "\<exists>st w. driver_init (scripted_nusb phone_config) phone driver_new
      (script_start\<lparr>ctrl_replies := phone_replies\<rparr>) = (Ok st, w) \<and>
    mac_addr st = Mac 2 0x11 0x22 0x33 0x44 0x55 \<and> max_transfer_size st = 0x4000 \<and> link_up st \<and>
    length (ctrl_sent w) = 4"
proof -
  have mac1: "mac_after m (phone_replies ! Suc 0) = Mac 2 0x11 0x22 0x33 0x44 0x55" for m
    using parse_query_cmplt_answer [of "[2, 0x11, 0x22, 0x33, 0x44, 0x55]" "[]" 30 2 "[]" "replicate 6 0"]
    by (simp add: mac_after_def phone_replies_def Let_def mac_of_bytes_def)
  have mac2: "mac_after m (phone_replies ! 2) = m" for m
    by (simp add: mac_after_def phone_replies_def parse_query_cmplt_def buffer_eval)
  let ?w = "script_start\<lparr>ctrl_replies := phone_replies\<rparr>"
  have "ctrl_replies ?w = [phone_replies ! 0, phone_replies ! 1, phone_replies ! 2, phone_replies ! 3]"
    and "\<forall>r \<in> {phone_replies ! 0, phone_replies ! 1, phone_replies ! 2, phone_replies ! 3}.
      length r \<le> RNDIS_BUF_SIZE"
    by (simp_all add: phone_replies_def)
  from init_handshake [OF this phone_init_cmplt, of phone_config phone]
  show ?thesis
    by (simp add: mac1 mac2 script_start_def)
qed

lemma build_buffer_fits:
  "build_init buf st = Ok (n, buf', st') \<Longrightarrow> n \<le> length buf' \<and> length buf' = length buf"
  "build_query buf oid st = Ok (n, buf', st') \<Longrightarrow> n \<le> length buf' \<and> length buf' = length buf"
  "build_set buf oid data st = Ok (n, buf', st') \<Longrightarrow> n \<le> length buf' \<and> length buf' = length buf"
  "build_keepalive buf st = Ok (n, buf', st') \<Longrightarrow> n \<le> length buf' \<and> length buf' = length buf"
  unfolding build_issue by (auto simp: issue_request_def Let_def split: if_splits)

lemma build_no_fault:
  "no_fault (build_init buf st)" "no_fault (build_query buf oid st)"
  "no_fault (build_set buf oid data st)" "no_fault (build_keepalive buf st)"
  by (simp_all add: build_issue issue_request_def Let_def)

lemma no_fault_io_lift [simp]: "no_fault (fst (io_lift m w)) = no_fault m"
  by (simp add: io_lift_def)

text \<open>Every slice is taken of a buffer that a builder or a transfer has just sized.\<close>

lemma slices_fit:
  "build_init buf st = Ok (n, buf', st') \<Longrightarrow> no_fault (subslice_to buf' n)"
  "build_query buf oid st = Ok (n, buf', st') \<Longrightarrow> no_fault (subslice_to buf' n)"
  "build_set buf oid data st = Ok (n, buf', st') \<Longrightarrow> no_fault (subslice_to buf' n)"
  "build_keepalive buf st = Ok (n, buf', st') \<Longrightarrow> no_fault (subslice_to buf' n)"
  "recv_ctrl nu dev buf w = (Ok (n, buf'), w') \<Longrightarrow> no_fault (subslice_to buf' n)"
  by (auto dest: build_buffer_fits recv_ctrl_length)

lemmas driver_steps = build_no_fault send_ctrl_no_fault recv_ctrl_no_fault completion_parsers_safe

lemma query_macs_no_fault:
  assumes "transfers_ok nu"
  shows "no_fault (fst (query_macs nu dev oids buf st w))"
proof (induction oids arbitrary: buf st w)
  case (Cons oid oids)
  show ?case
    using assms Cons.IH
    by (auto simp: driver_steps no_fault_io_try io_try_eq_Inr Let_def split: sum.splits
      intro!: no_fault_io_then intro: slices_fit)
qed simp

lemma driver_calls_no_fault:
  assumes "transfers_ok nu"
  shows "no_fault (fst (driver_init nu dev st w))" and "no_fault (fst (driver_keepalive nu dev st w))"
proof -
  show "no_fault (fst (driver_init nu dev st w))"
    using assms unfolding driver_init_def Let_def
    by (auto simp: driver_steps no_fault_io_try query_macs_no_fault
      intro!: no_fault_io_then intro: slices_fit)
  show "no_fault (fst (driver_keepalive nu dev st w))"
    using assms unfolding driver_keepalive_def Let_def
    by (auto simp: driver_steps no_fault_io_try
      intro!: no_fault_io_then)
      (erule slices_fit)
qed

text \<open>
  Claim C20: whatever a device answers, the handshake and the keepalive run without a panic: every
  slice the driver takes of its buffer lies inside it, since a transfer never reports more bytes than
  the buffer holds.
\<close>

theorem driver_no_fault:
  assumes "transfers_ok nu"
  shows "no_fault (fst (driver_init nu dev st w)) \<and> no_fault (fst (driver_keepalive nu dev st w))"
  using driver_calls_no_fault [OF assms] by blast

lemma scripted_transfers_ok: "transfers_ok (scripted_nusb config)"
  by (simp add: transfers_ok_def scripted_nusb_def split: list.split)

theorem driver_no_fault_witness:
  "no_fault (fst (driver_init (scripted_nusb phone_config) phone driver_new
     (script_start\<lparr>ctrl_replies := [[0xFF], replicate 52 0x80]\<rparr>)))"
  using driver_no_fault [OF scripted_transfers_ok] by blast

end
