(* ===== verification/Arp.thy ===== *)
theory Arp
  imports Proto_Rndis
begin

text \<open>
  \<^verbatim>\<open>src/arp.rs\<close>: building an ARP reply, answering a request and announcing an address.
  An \<open>Ipv4Addr\<close> is the \<open>u32\<close> of its octets in network order. The lemmas state the
  messages as wire bytes, independently of the packed structs the code writes.
\<close>

section \<open>The operations\<close>

definition arp_packet_reply :: "mac \<Rightarrow> u32 \<Rightarrow> mac \<Rightarrow> u32 \<Rightarrow> arp_packet" where
  "arp_packet_reply our_mac our_ip their_mac their_ip =
     \<lparr>hw_type = u16_to_be ARP_HW_ETHERNET, proto_type = u16_to_be 0x0800, hw_len = 6, proto_len = 4,
      arp_opcode = u16_to_be ARP_OP_REPLY, sender_mac = our_mac, sender_ip = u32_to_be our_ip,
      target_mac = their_mac, target_ip = u32_to_be their_ip\<rparr>"

definition build_reply ::
  "u8 list \<Rightarrow> mac \<Rightarrow> u32 \<Rightarrow> mac \<Rightarrow> u32 \<Rightarrow> (nat \<times> u8 list) outcome" where
  "build_reply buf our_mac our_ip their_mac their_ip =
     (let total = eth_hdr_size + arp_packet_size in
      if length buf < total then Err (BufferTooSmall total (length buf))
      else
        let eth = \<lparr>eth_dst = their_mac, eth_src = our_mac, eth_type = u16_to_be ARP_ETHERTYPE\<rparr> in
        and_then (write_raw buf 0 (eth_hdr_bytes eth)) (\<lambda>buf.
        let arp = arp_packet_reply our_mac our_ip their_mac their_ip in
        and_then (write_raw buf eth_hdr_size (arp_packet_bytes arp)) (\<lambda>buf.
        Ok (total, buf))))"

definition handle_request ::
  "u8 list \<Rightarrow> u8 list \<Rightarrow> mac \<Rightarrow> u32 \<Rightarrow> (nat \<times> u8 list) outcome" where
  "handle_request frame reply_buf our_mac our_ip =
     (let hdr_size = eth_hdr_size + arp_packet_size in
      if length frame < hdr_size then Ok (0, reply_buf)
      else
        and_then (map_ok eth_hdr_of_bytes (read_raw frame 0 eth_hdr_size)) (\<lambda>eth.
        if u16_of_be (eth_type eth) \<noteq> ARP_ETHERTYPE then Ok (0, reply_buf)
        else
          and_then (map_ok arp_packet_of_bytes (read_raw frame eth_hdr_size arp_packet_size)) (\<lambda>arp.
          let op = u16_of_be (arp_opcode arp);
              target_ip = u32_of_be (target_ip arp) in
          if op = ARP_OP_REQUEST \<and> target_ip = our_ip then
            let sender_ip = u32_of_be (sender_ip arp) in
            build_reply reply_buf our_mac our_ip (sender_mac arp) sender_ip
          else Ok (0, reply_buf))))"

definition garp_eth_frame :: "mac \<Rightarrow> u32 \<Rightarrow> u8 list outcome" where
  "garp_eth_frame mac ip =
     (let garp_eth = replicate ETH_BUF_SIZE 0;
          eth = \<lparr>eth_dst = mac_broadcast, eth_src = mac, eth_type = u16_to_be ARP_ETHERTYPE\<rparr> in
      and_then (write_raw garp_eth 0 (eth_hdr_bytes eth)) (\<lambda>garp_eth.
      let arp = arp_packet_reply mac ip mac_broadcast ip in
      write_raw garp_eth eth_hdr_size (arp_packet_bytes arp)))"

definition send_gratuitous ::
  "('d, 'i, 'w) nusb \<Rightarrow> 'i usb_device \<Rightarrow> mac \<Rightarrow> u32 \<Rightarrow> ('w, unit) io" where
  "send_gratuitous nu usb mac ip =
     (let total = eth_hdr_size + arp_packet_size in
      io_then (io_lift (garp_eth_frame mac ip)) (\<lambda>garp_eth.
      let rndis_buf = replicate RNDIS_BUF_SIZE 0 in
      io_then (io_lift (and_then (subslice_to garp_eth total) (build_data_packet rndis_buf)))
        (\<lambda>(rndis_len, rndis_buf).
      io_then (io_lift (subslice_to rndis_buf rndis_len)) (\<lambda>msg.
      io_then (send_bulk nu usb msg) (\<lambda>_.
      io_lift (Ok ()))))))"

section \<open>The messages on the wire\<close>

text \<open>An Ethernet frame with an ARP packet for IPv4 (RFC 826), byte by byte.\<close>

definition arp_wire :: "mac \<Rightarrow> mac \<Rightarrow> u16 \<Rightarrow> mac \<Rightarrow> u32 \<Rightarrow> mac \<Rightarrow> u32 \<Rightarrow> u8 list" where
  "arp_wire dst src op smac sip tmac tip =
     mac_bytes dst @ mac_bytes src @ [0x08, 0x06] @
     [0, 1, 0x08, 0, 6, 4] @ u16_to_be_bytes op @
     mac_bytes smac @ u32_to_be_bytes sip @ mac_bytes tmac @ u32_to_be_bytes tip"

text \<open>
  Whether a frame is an ARP request for an address, and who asks, read off the bytes: the
  code looks at the ethertype, the opcode and the target address only.
\<close>

definition asks_for :: "u32 \<Rightarrow> u8 list \<Rightarrow> bool" where
  "asks_for ip frame \<longleftrightarrow>
     42 \<le> length frame \<and> take 2 (drop 12 frame) = [0x08, 0x06] \<and>
     take 2 (drop 20 frame) = [0, 1] \<and> take 4 (drop 38 frame) = u32_to_be_bytes ip"

definition asker_mac :: "u8 list \<Rightarrow> mac" where
  "asker_mac frame = mac_of_bytes (drop 22 frame)"

definition asker_ip :: "u8 list \<Rightarrow> u32" where
  "asker_ip frame = u32_from_be (frame ! 28) (frame ! 29) (frame ! 30) (frame ! 31)"

lemma length_arp_wire [simp]: "length (arp_wire dst src op smac sip tmac tip) = 42"
  by (simp add: arp_wire_def)

lemma to_be_bytes_consts:
  "u16_to_be_bytes 0x0806 = [0x08, 0x06]" "u16_to_be_bytes 0x0800 = [0x08, 0]"
  "u16_to_be_bytes 1 = [0, 1]"
  by (simp_all add: u16_to_be_bytes_def)

lemma arp_reply_bytes:
  "eth_hdr_bytes \<lparr>eth_dst = tmac, eth_src = smac, eth_type = u16_to_be ARP_ETHERTYPE\<rparr> @
   arp_packet_bytes (arp_packet_reply smac sip tmac tip) = arp_wire tmac smac 2 smac sip tmac tip"
  by (simp add: eth_hdr_bytes_def arp_packet_bytes_def arp_packet_reply_def arp_wire_def
      to_be_bytes_consts)

lemma build_reply_form:
  "build_reply buf our_mac our_ip their_mac their_ip =
     (if length buf < 42 then Err (BufferTooSmall 42 (length buf))
      else Ok (42, arp_wire their_mac our_mac 2 our_mac our_ip their_mac their_ip @ drop 42 buf))"
proof -
  let ?eth = "eth_hdr_bytes \<lparr>eth_dst = their_mac, eth_src = our_mac, eth_type = u16_to_be ARP_ETHERTYPE\<rparr>"
  let ?arp = "arp_packet_bytes (arp_packet_reply our_mac our_ip their_mac their_ip)"
  have "length ?eth = 14" "length ?arp = 28"
    using eth_layout.length_to_bytes arp_layout.length_to_bytes by simp_all
  then show ?thesis
    using arp_reply_bytes [of their_mac our_mac our_ip their_ip]
    by (simp add: build_reply_def Let_def write_raw_0 write_raw_append flip: append_assoc)
qed

lemma handle_request_form:
  "handle_request frame buf our_mac our_ip =
     (if \<not> asks_for our_ip frame then Ok (0, buf)
      else if length buf < 42 then Err (BufferTooSmall 42 (length buf))
      else Ok (42, arp_wire (asker_mac frame) our_mac 2 our_mac our_ip (asker_mac frame)
                     (asker_ip frame) @ drop 42 buf))"
proof (cases "length frame < 42")
  case False
  have t: "(0x0806 :: u16) = u16_from_be 0x08 0x06" "(1 :: u16) = u16_from_be 0 1"
    by (simp_all add: u16_from_be_def)
  have "u16_of_be (eth_type (eth_hdr_of_bytes (take 14 frame))) = u16_from_be (frame ! 12) (frame ! 13)"
    using False by (simp add: eth_hdr_of_bytes_def)
  moreover have "let arp = arp_packet_of_bytes (take 28 (drop 14 frame)) in
      u16_of_be (arp_opcode arp) = u16_from_be (frame ! 20) (frame ! 21) \<and>
      u32_of_be (target_ip arp) = u32_from_be (frame ! 38) (frame ! 39) (frame ! 40) (frame ! 41) \<and>
      sender_mac arp = asker_mac frame \<and> u32_of_be (sender_ip arp) = asker_ip frame"
    using False by (simp add: arp_packet_of_bytes_def asker_mac_def asker_ip_def mac_of_bytes_def Let_def)
  ultimately show ?thesis
    using False
    by (simp add: handle_request_def asks_for_def read_raw_def Let_def build_reply_form
        take_drop_2 take_drop_4 t u16_from_be_inject u32_from_be_eq_iff)
qed (simp add: handle_request_def asks_for_def)

text \<open>
  Claim C37: a frame is answered exactly when it is an ARP request for our address, with a unicast
  reply to the asker that carries our hardware and protocol address, written into the front of the
  buffer and nowhere else; every other frame, of any length, changes nothing; a request that meets a
  small buffer is the error with both sizes. No read or write leaves its buffer.
\<close>

theorem handle_request_exact:
  "handle_request frame buf our_mac our_ip =
     (if \<not> asks_for our_ip frame then Ok (0, buf)
      else if length buf < 42 then Err (BufferTooSmall 42 (length buf))
      else Ok (42, arp_wire (asker_mac frame) our_mac 2 our_mac our_ip (asker_mac frame)
                     (asker_ip frame) @ drop 42 buf))"
  by (rule handle_request_form)

lemma asks_for_wire:
  "asks_for ip (arp_wire dst src op smac sip tmac tip @ r) \<longleftrightarrow> op = 1 \<and> tip = ip"
proof -
  have "u16_to_be_bytes op = [0, 1] \<longleftrightarrow> op = 1"
    by (metis to_be_bytes_consts(3) u16_from_be_parts u16_to_be_bytes_def list.inject)
  moreover have "u32_to_be_bytes tip = u32_to_be_bytes ip \<longleftrightarrow> tip = ip"
    by (metis u32_of_be_slice_bytes outcome.inject(1))
  ultimately show ?thesis
    by (simp add: asks_for_def arp_wire_def)
qed

lemma asker_wire:
  "asker_mac (arp_wire dst src op smac sip tmac tip @ r) = smac"
  "asker_ip (arp_wire dst src op smac sip tmac tip @ r) = sip"
  by (simp_all add: asker_mac_def asker_ip_def arp_wire_def nth_append u32_to_be_bytes_def
      u16_to_be_bytes_def)

text \<open>
  Claim C38: two hosts that run this code resolve each other: the reply to a request for the second
  host's address, decoded as the first host's frame, names the second host's hardware address and
  protocol address, is addressed to the asker, and is answered by nobody, whatever address the
  receiver has.
\<close>

theorem arp_exchange:
  "\<exists>buf'. handle_request (arp_wire mac_broadcast macA 1 macA ipA (Mac 0 0 0 0 0 0) ipB)
      (replicate 42 0) macB ipB = Ok (42, buf') \<and>
    asker_mac buf' = macB \<and> asker_ip buf' = ipB \<and> mac_of_bytes buf' = macA \<and>
    (\<forall>mac ip. handle_request buf' (replicate 42 0) mac ip = Ok (0, replicate 42 0))"
proof -
  let ?req = "arp_wire mac_broadcast macA 1 macA ipA (Mac 0 0 0 0 0 0) ipB"
  have req: "asks_for ipB ?req" "asker_mac ?req = macA" "asker_ip ?req = ipA"
    using asks_for_wire [of ipB _ _ 1 _ _ _ _ "[]"] asker_wire [where r = "[]"] by simp_all
  let ?rep = "arp_wire macA macB 2 macB ipB macA ipA"
  have "\<not> asks_for ip ?rep" "asker_mac ?rep = macB" "asker_ip ?rep = ipB" "mac_of_bytes ?rep = macA" for ip
    using asks_for_wire [of ip _ _ 2 _ _ _ _ "[]"] asker_wire [where r = "[]"]
    by (simp_all add: arp_wire_def)
  with req show ?thesis
    by (simp add: handle_request_form)
qed

lemma garp_eth_frame_ok:
  "garp_eth_frame mac ip =
     Ok (arp_wire mac_broadcast mac 2 mac ip mac_broadcast ip @ replicate (2048 - 42) 0)"
proof -
  let ?eth = "eth_hdr_bytes \<lparr>eth_dst = mac_broadcast, eth_src = mac, eth_type = u16_to_be ARP_ETHERTYPE\<rparr>"
  let ?arp = "arp_packet_bytes (arp_packet_reply mac ip mac_broadcast ip)"
  have "length ?eth = 14" "length ?arp = 28"
    using eth_layout.length_to_bytes arp_layout.length_to_bytes by simp_all
  then show ?thesis
    using arp_reply_bytes [of mac_broadcast mac ip ip]
    by (simp add: garp_eth_frame_def Let_def write_raw_0 write_raw_append drop_replicate
        flip: append_assoc)
qed

lemma send_gratuitous_form:
  "send_gratuitous nu usb mac ip =
     io_then (send_bulk nu usb (data_message (arp_wire mac_broadcast mac 2 mac ip mac_broadcast ip)))
       (\<lambda>_. io_lift (Ok ()))"
  using build_data_packet_ok [of "arp_wire mac_broadcast mac 2 mac ip mac_broadcast ip" "replicate RNDIS_BUF_SIZE 0"]
  by (simp add: send_gratuitous_def Let_def garp_eth_frame_ok io_run)

text \<open>
  Announcing an address makes one bulk transfer and nothing else: the wrapped broadcast
  reply that maps our protocol address to our hardware address. The receiving side unwraps exactly
  that frame, and takes it for no request.
\<close>

theorem send_gratuitous_announces:
  "send_gratuitous nu usb mac ip =
     io_then (send_bulk nu usb (data_message (arp_wire mac_broadcast mac 2 mac ip mac_broadcast ip)))
       (\<lambda>_. io_lift (Ok ())) \<and>
   rndis_frame_list (data_message (arp_wire mac_broadcast mac 2 mac ip mac_broadcast ip)) =
     [arp_wire mac_broadcast mac 2 mac ip mac_broadcast ip] \<and>
   (\<forall>ip'. \<not> asks_for ip' (arp_wire mac_broadcast mac 2 mac ip mac_broadcast ip))"
proof (intro conjI allI)
  let ?f = "arp_wire mac_broadcast mac 2 mac ip mac_broadcast ip"
  show "\<not> asks_for ip' ?f" for ip'
    using asks_for_wire [of ip' _ _ 2 _ _ _ _ "[]"] by simp
  have "length ?f = 42" by simp
  then have "?f \<noteq> []" by (metis list.size(3) zero_neq_numeral)
  then show "rndis_frame_list (data_message ?f) = [?f]"
    by (rule rndis_drv.frames_message) simp
  show "send_gratuitous nu usb mac ip =
      io_then (send_bulk nu usb (data_message ?f)) (\<lambda>_. io_lift (Ok ()))"
    by (rule send_gratuitous_form)
qed

end
