(* ===== verification/Inet_Checksum.thy ===== *)
theory Inet_Checksum
  imports Byte_Order
begin

text \<open>
  The internet checksum (RFC 1071), which \<^verbatim>\<open>src/dhcp.rs\<close> (\<open>checksum\<close>) and
  \<^verbatim>\<open>src/dns_proxy.rs\<close> (\<open>ip_checksum\<close>) implement separately: both sum 16-bit words in a
  \<open>u32\<close> and fold the carries back; they differ on a last odd byte. The locale
  \<open>inet_checksum\<close> is what a sender of IPv4 headers relies on: the word it fills in makes the
  receiver's check succeed, and the check notices a changed word. It is interpreted on both.
\<close>

section \<open>The two routines\<close>

text \<open>\<open>while sum >> 16 != 0 { sum = (sum & 0xFFFF) + (sum >> 16); }\<close>\<close>

lemma unat_low16: "unat (s AND 0xFFFF :: u32) = unat s mod 65536"
proof -
  have "s AND 0xFFFF = take_bit 16 s" by (simp add: take_bit_eq_mask mask_eq_exp_minus_1)
  moreover have "unat (take_bit 16 s) = take_bit 16 (unat s)" by (rule unsigned_take_bit_eq)
  ultimately show ?thesis by (simp only: take_bit_eq_mod) simp
qed

lemma unat_high16: "unat (drop_bit 16 s :: u32) = unat s div 65536"
proof -
  have "unat (drop_bit 16 s) = drop_bit 16 (unat s)" by (rule unat_drop_bit_eq)
  then show ?thesis by (simp only: drop_bit_eq_div) simp
qed

lemma fold_carry_step:
  "unat ((s AND 0xFFFF) + drop_bit 16 s :: u32) = unat s mod 65536 + unat s div 65536"
proof -
  have "unat s < 4294967296" by (rule unat_u32_less)
  then have "unat s div 65536 < 65536" by (simp add: less_mult_imp_div_less)
  then have "unat s mod 65536 + unat s div 65536 < 4294967296"
    using mod_less_divisor [of 65536 "unat s"] by linarith
  then show ?thesis by (simp add: unat_word_ariths unat_low16 unat_high16)
qed

function fold_carry :: "u32 \<Rightarrow> u32" where
  "fold_carry s =
     (if drop_bit 16 s \<noteq> 0 then fold_carry ((s AND 0xFFFF) + drop_bit 16 s) else s)"
  by pat_completeness auto

termination fold_carry
proof (relation "measure unat", simp_all only: in_measure wf_measure)
  fix s :: u32
  assume "drop_bit 16 s \<noteq> 0"
  then have "unat s div 65536 \<noteq> 0" by (metis unat_high16 unat_eq_zero)
  then show "unat ((s AND 0xFFFF) + drop_bit 16 s) < unat s"
    using mult_div_mod_eq [of 65536 "unat s"] unfolding fold_carry_step by linarith
qed

declare fold_carry.simps [simp del]

text \<open>\<open>checksum\<close>: \<open>chunks(2)\<close>, where a last chunk of one byte is skipped.\<close>

fun sum_chunks :: "u8 list \<Rightarrow> u32 \<Rightarrow> u32" where
  "sum_chunks (a # b # iph) s = sum_chunks iph (s + ucast (u16_from_be a b))"
| "sum_chunks [a] s = s"
| "sum_chunks [] s = s"

definition checksum :: "u8 list \<Rightarrow> u16" where
  "checksum iph = ucast (NOT (fold_carry (sum_chunks iph 0)))"

text \<open>\<open>ip_checksum\<close>: steps of two over the indices, where a last byte is a high byte.\<close>

fun sum_words :: "u8 list \<Rightarrow> u32 \<Rightarrow> u32" where
  "sum_words (a # b # hdr) s = sum_words hdr (s + ucast (u16_from_be a b))"
| "sum_words [a] s = s + push_bit 8 (ucast a)"
| "sum_words [] s = s"

definition ip_checksum :: "u8 list \<Rightarrow> u16" where
  "ip_checksum hdr = NOT (ucast (fold_carry (sum_words hdr 0)))"

section \<open>The contract\<close>

text \<open>The 16-bit words of a header as numbers, and their sum.\<close>

fun be_words :: "u8 list \<Rightarrow> nat list" where
  "be_words (a # b # r) = (256 * unat a + unat b) # be_words r"
| "be_words _ = []"

definition words_sum :: "u8 list \<Rightarrow> nat" where
  "words_sum xs = sum_list (be_words xs)"

text \<open>
  The receiver's check: the one's-complement sum of all words is \<open>0xFFFF\<close>, that is, the
  sum is a positive multiple of 65535.
\<close>

definition verifies :: "u8 list \<Rightarrow> bool" where
  "verifies xs \<longleftrightarrow> 0 < words_sum xs \<and> words_sum xs mod 65535 = 0"

lemma words_sum_simps [simp]:
  "words_sum [] = 0"
  "words_sum (a # b # r) = 256 * unat a + unat b + words_sum r"
  by (simp_all add: words_sum_def)

lemma words_sum_append: "even (length xs) \<Longrightarrow> words_sum (xs @ ys) = words_sum xs + words_sum ys"
  by (induction xs rule: be_words.induct) simp_all

lemma words_sum_word [simp]: "words_sum (u16_to_be_bytes w @ r) = unat w + words_sum r"
proof -
  have "unat w = 256 * unat (ucast (drop_bit 8 w) :: u8) + unat (ucast w :: u8)"
    using unat_u16_from_be [of "ucast (drop_bit 8 w)" "ucast w"] by simp
  then show ?thesis by (simp add: u16_to_be_bytes_def)
qed

lemma words_sum_less: "2 * words_sum xs \<le> 65535 * length xs"
proof (induction xs rule: be_words.induct)
  case (1 a b r)
  have "256 * unat a + unat b < 65536"
    using unat_u8_less [of a] unat_u8_less [of b] by linarith
  with 1 show ?case by simp
qed (simp_all add: words_sum_def)

locale inet_checksum =
  fixes ck :: "u8 list \<Rightarrow> u16"
  assumes ck_sum: "even (length h) \<Longrightarrow> length h \<le> 131072 \<Longrightarrow>
      (words_sum h + unat (ck h)) mod 65535 = 0 \<and> 0 < words_sum h + unat (ck h)"
begin

text \<open>Filling a zeroed field with the checksum makes the header verify.\<close>

lemma filled_verifies:
  assumes "even (length a)" and "even (length b)" and "length a + 2 + length b \<le> 131072"
  shows "verifies (a @ u16_to_be_bytes (ck (a @ [0, 0] @ b)) @ b)"
proof -
  have "words_sum (a @ [0, 0] @ b) = words_sum a + words_sum b"
    using assms(1) by (simp add: words_sum_append)
  with ck_sum [of "a @ [0, 0] @ b"] assms show ?thesis
    by (simp add: verifies_def words_sum_append ac_simps)
qed

end

text \<open>
  A verifying header stops verifying when one word changes, unless the two words are the
  two zeros of one's-complement arithmetic.
\<close>

lemma mod_add_cancel:
  assumes "(c + v) mod m = (c + w) mod (m :: nat)"
  shows "v mod m = w mod m"
proof -
  from assms have "(int c + int v) mod int m = (int c + int w) mod int m"
    by (metis of_nat_add of_nat_mod)
  then have "int m dvd int v - int w" by (simp add: mod_eq_dvd_iff)
  then have "int v mod int m = int w mod int m" by (simp add: mod_eq_dvd_iff)
  then show ?thesis by (metis of_nat_eq_iff of_nat_mod)
qed

lemma verifies_detects:
  assumes "verifies (a @ u16_to_be_bytes v @ b)" and "even (length a)" and "v \<noteq> w"
    and "{v, w} \<noteq> {0, 0xFFFF}"
  shows "\<not> verifies (a @ u16_to_be_bytes w @ b)"
proof
  assume "verifies (a @ u16_to_be_bytes w @ b)"
  with assms(1,2) have "(words_sum a + words_sum b + unat v) mod 65535 =
      (words_sum a + words_sum b + unat w) mod 65535"
    by (simp add: verifies_def words_sum_append ac_simps)
  then have "unat v mod 65535 = unat w mod 65535"
    by (rule mod_add_cancel)
  moreover have "unat v < 65536" "unat w < 65536" by (rule unat_u16_less)+
  ultimately have "unat v = unat w \<or> {unat v, unat w} = {0, 65535}"
    by (cases "unat v = 65535"; cases "unat w = 65535") auto
  with assms(3,4) show False
    by (auto simp: word_unat_eq_iff doubleton_eq_iff)
qed

section \<open>Both routines fulfil it\<close>

lemma fold_carry_spec:
  "unat (fold_carry s) < 65536 \<and> unat (fold_carry s) mod 65535 = unat s mod 65535 \<and>
   (fold_carry s = 0 \<longleftrightarrow> s = 0)"
proof (induction s rule: fold_carry.induct)
  case (1 s)
  show ?case
  proof (cases "drop_bit 16 s = 0")
    case True
    then have "unat s div 65536 = 0" by (metis unat_high16 unsigned_0)
    then show ?thesis using True by (simp add: fold_carry.simps [of s] div_eq_0_iff)
  next
    case False
    let ?t = "(s AND 0xFFFF) + drop_bit 16 s"
    have e: "fold_carry s = fold_carry ?t" using False by (simp add: fold_carry.simps [of s])
    have "unat s = 65535 * (unat s div 65536) + unat ?t"
      unfolding fold_carry_step using mult_div_mod_eq [of 65536 "unat s"] by linarith
    then have "unat s mod 65535 = unat ?t mod 65535"
      by (metis mod_mult_self4)
    moreover have "?t = 0 \<longleftrightarrow> s = 0"
    proof -
      have "unat ?t = 0 \<longleftrightarrow> unat s = 0" unfolding fold_carry_step
        by (metis add_eq_0_iff_both_eq_0 mult_div_mod_eq mult_zero_right div_0 mod_0)
      then show ?thesis by (simp add: unat_eq_zero)
    qed
    ultimately show ?thesis using 1 [OF False] e by simp
  qed
qed

lemma complement_sum:
  assumes "unat s = n"
  shows "(n + (65535 - unat (fold_carry s))) mod 65535 = 0 \<and> 0 < n + (65535 - unat (fold_carry s))"
proof -
  let ?f = "unat (fold_carry s)"
  from fold_carry_spec [of s] have f: "?f < 65536" "?f mod 65535 = n mod 65535" "?f = 0 \<longleftrightarrow> n = 0"
    using assms by (auto simp: unat_eq_zero)
  have "(n + (65535 - ?f)) mod 65535 = (n mod 65535 + (65535 - ?f)) mod 65535"
    by (rule mod_add_left_eq [symmetric])
  also have "\<dots> = (?f mod 65535 + (65535 - ?f)) mod 65535" by (simp only: f(2))
  also have "\<dots> = (?f + (65535 - ?f)) mod 65535" by (rule mod_add_left_eq)
  also have "\<dots> = 0" using f(1) by simp
  finally show ?thesis using f by (cases "n = 0") auto
qed

lemma unat_NOT_u16: "unat (NOT w :: u16) = 65535 - unat w"
proof -
  have "NOT w = - 1 - w" by (simp add: not_eq_complement)
  moreover have "unat (- 1 - w) = unat (- 1 :: u16) - unat w" by (rule unat_sub) simp
  ultimately show ?thesis by (simp add: unsigned_minus_1_eq_mask mask_eq_exp_minus_1)
qed


lemma sum_chunks_even:
  assumes "even (length h)" and "unat s + words_sum h < 4294967296"
  shows "unat (sum_chunks h s) = unat s + words_sum h"
  using assms
proof (induction h s rule: sum_chunks.induct)
  case (1 a b iph s)
  have "unat (s + ucast (u16_from_be a b)) = unat s + (256 * unat a + unat b)"
    using "1.prems" by (simp add: unat_word_ariths unat_u16_from_be)
  with 1 show ?case by simp
qed simp_all

lemma sum_words_even: "even (length h) \<Longrightarrow> sum_words h s = sum_chunks h s"
  by (induction h s rule: sum_chunks.induct) simp_all

text \<open>On whole words, as an IPv4 header always is, the two routines agree.\<close>

lemma checksums_agree: "even (length h) \<Longrightarrow> ip_checksum h = checksum h"
  by (simp add: checksum_def ip_checksum_def sum_words_even)
    (rule bit_word_eqI, simp add: bit_simps)

lemma ip_checksum_sum:
  assumes "even (length h)" and "length h \<le> 131072"
  shows "(words_sum h + unat (ip_checksum h)) mod 65535 = 0 \<and> 0 < words_sum h + unat (ip_checksum h)"
proof -
  have "words_sum h < 4294967296" using words_sum_less [of h] assms(2) by linarith
  then have s: "unat (sum_words h 0) = words_sum h"
    using assms(1) by (simp add: sum_words_even sum_chunks_even)
  let ?f = "fold_carry (sum_words h 0)"
  have "unat (ucast ?f :: u16) = unat ?f"
    using fold_carry_spec [of "sum_words h 0"] by (simp add: unsigned_ucast_eq take_bit_nat_eq_self)
  then have "unat (ip_checksum h) = 65535 - unat ?f"
    by (simp add: ip_checksum_def unat_NOT_u16)
  then show ?thesis using complement_sum [OF s] by simp
qed

interpretation dns_ck: inet_checksum ip_checksum
  by unfold_locales (rule ip_checksum_sum)

interpretation dhcp_ck: inet_checksum checksum
  by unfold_locales (use ip_checksum_sum in \<open>simp add: checksums_agree\<close>)

text \<open>
  Claim C35: the header checksums. For a header with a zeroed checksum word anywhere in it, the word
  either routine computes makes the receiver's one's-complement check succeed, both compute the same,
  and replacing the word by another then fails the check, the second zero of the arithmetic excepted.
\<close>

theorem checksums_verify:
  assumes "even (length a)" and "even (length b)" and "length a + 2 + length b \<le> 131072"
  shows "verifies (a @ u16_to_be_bytes (checksum (a @ [0, 0] @ b)) @ b) \<and>
    ip_checksum (a @ [0, 0] @ b) = checksum (a @ [0, 0] @ b) \<and>
    (\<forall>w. w \<noteq> checksum (a @ [0, 0] @ b) \<and> {checksum (a @ [0, 0] @ b), w} \<noteq> {0, 0xFFFF} \<longrightarrow>
      \<not> verifies (a @ u16_to_be_bytes w @ b))"
  using dhcp_ck.filled_verifies [OF assms] verifies_detects assms(1,2)
  by (simp add: checksums_agree) metis

theorem checksums_verify_witness:
  "verifies ([0x45, 0, 1, 0x2C, 0, 0, 0, 0, 64, 17] @ u16_to_be_bytes
      (checksum ([0x45, 0, 1, 0x2C, 0, 0, 0, 0, 64, 17] @ [0, 0] @ [0, 0, 0, 0, 255, 255, 255, 255])) @
      [0, 0, 0, 0, 255, 255, 255, 255])"
  using checksums_verify [of "[0x45, 0, 1, 0x2C, 0, 0, 0, 0, 64, 17]" "[0, 0, 0, 0, 255, 255, 255, 255]"]
  by simp

end
