(* ===== verification/Ipv4.thy ===== *)
theory Ipv4
  imports Byte_Order
begin

text \<open>
  \<open>std::net::Ipv4Addr\<close> as the program uses it: an address is the \<open>u32\<close> of its octets in
  network order, \<open>Display\<close> writes dotted decimals, \<open>FromStr\<close> reads them back with the
  library's rules (four decimal octets of at most three digits, no leading zero, at most
  255, nothing before or after). \<open>parse_ip4\<close> is the wrapper of \<^verbatim>\<open>src/error.rs\<close>.
\<close>

type_synonym ipv4 = u32

definition ipv4_new :: "u8 \<Rightarrow> u8 \<Rightarrow> u8 \<Rightarrow> u8 \<Rightarrow> ipv4" where
  "ipv4_new a b c d = u32_from_be a b c d"

definition octets :: "ipv4 \<Rightarrow> u8 list" where
  "octets ip = u32_to_be_bytes ip"

definition unspecified :: ipv4 where
  "unspecified = 0"

section \<open>Decimal numbers\<close>

definition digit_char :: "nat \<Rightarrow> char" where
  "digit_char n = (''0123456789'' ! (n mod 10))"

definition is_digit :: "char \<Rightarrow> bool" where
  "is_digit c \<longleftrightarrow> 48 \<le> (of_char c :: nat) \<and> (of_char c :: nat) \<le> 57"

definition digit_value :: "char \<Rightarrow> nat" where
  "digit_value c = of_char c - 48"

fun show_nat :: "nat \<Rightarrow> string" where
  "show_nat n = (if n < 10 then [digit_char n] else show_nat (n div 10) @ [digit_char n])"

declare show_nat.simps [simp del]

text \<open>The value of a digit string.\<close>

definition digits_value :: "string \<Rightarrow> nat" where
  "digits_value s = foldl (\<lambda>n c. 10 * n + digit_value c) 0 s"

section \<open>Addresses as text\<close>

definition show_ip :: "ipv4 \<Rightarrow> string" where
  "show_ip ip = (case map (\<lambda>b. show_nat (unat b)) (octets ip) of
     [a, b, c, d] \<Rightarrow> a @ ''.'' @ b @ ''.'' @ c @ ''.'' @ d
   | _ \<Rightarrow> '''')"

text \<open>\<open>read_number(10, Some(3), false)\<close> on \<open>u8\<close>.\<close>

definition read_octet :: "string \<Rightarrow> u8 option" where
  "read_octet s =
     (if s = [] \<or> 3 < length s \<or> \<not> list_all is_digit s then None
      else if 1 < length s \<and> hd s = CHR ''0'' then None
      else if 255 < digits_value s then None
      else Some (of_nat (digits_value s)))"

fun split_on :: "char \<Rightarrow> string \<Rightarrow> string list" where
  "split_on x [] = [[]]"
| "split_on x (c # s) = (case split_on x s of
     [] \<Rightarrow> []
   | p # ps \<Rightarrow> if c = x then [] # p # ps else (c # p) # ps)"

definition ipv4_from_str :: "string \<Rightarrow> ipv4 option" where
  "ipv4_from_str s =
     (case map read_octet (split_on (CHR ''.'') s) of
        [Some a, Some b, Some c, Some d] \<Rightarrow> Some (ipv4_new a b c d)
      | _ \<Rightarrow> None)"

definition parse_ip4 :: "string \<Rightarrow> ipv4 outcome" where
  "parse_ip4 s = (case ipv4_from_str s of Some ip \<Rightarrow> Ok ip | None \<Rightarrow> Err (InvalidIp s))"

text \<open>\<open>s.parse().unwrap()\<close>.\<close>

definition parse_unwrap :: "string \<Rightarrow> ipv4 outcome" where
  "parse_unwrap s = (case ipv4_from_str s of Some ip \<Rightarrow> Ok ip | None \<Rightarrow> Panic)"

section \<open>Round trip\<close>

lemma digit_char_cases: "P 0 \<Longrightarrow> P 1 \<Longrightarrow> P 2 \<Longrightarrow> P 3 \<Longrightarrow> P 4 \<Longrightarrow> P 5 \<Longrightarrow> P 6 \<Longrightarrow> P 7 \<Longrightarrow> P 8 \<Longrightarrow> P 9 \<Longrightarrow> P (n mod 10 :: nat)"
proof -
  assume "P 0" "P 1" "P 2" "P 3" "P 4" "P 5" "P 6" "P 7" "P 8" "P 9"
  moreover have "n mod 10 \<in> {0, 1, 2, 3, 4, 5, 6, 7, 8, 9}"
    using mod_less_divisor [of 10 n] by (auto simp del: mod_less_divisor)
  ultimately show ?thesis by auto
qed

lemma digit_char_simps [simp]:
  "is_digit (digit_char n)" "digit_value (digit_char n) = n mod 10"
  "digit_char n = CHR ''0'' \<longleftrightarrow> n mod 10 = 0" "digit_char n \<noteq> CHR ''.''"
  unfolding digit_char_def is_digit_def digit_value_def
  by (rule digit_char_cases; simp)+

lemma digits_value_append [simp]:
  "digits_value (s @ [c]) = 10 * digits_value s + digit_value c"
  by (simp add: digits_value_def)

lemma show_nat_value [simp]: "digits_value (show_nat n) = n"
proof (induction n rule: show_nat.induct)
  case (1 n)
  show ?case
  proof (cases "n < 10")
    case True
    then show ?thesis by (simp add: show_nat.simps [of n] digits_value_def)
  next
    case False
    then show ?thesis using 1 by (simp add: show_nat.simps [of n])
  qed
qed

lemma show_nat_digits: "list_all is_digit (show_nat n)"
proof (induction n rule: show_nat.induct)
  case (1 n)
  then show ?case by (cases "n < 10") (simp_all add: show_nat.simps [of n])
qed

lemma show_nat_no_dot: "CHR ''.'' \<notin> set (show_nat n)"
  using show_nat_digits [of n] by (auto simp: list_all_iff is_digit_def)

lemma show_nat_not_Nil [simp]: "show_nat n \<noteq> []"
  by (simp add: show_nat.simps [of n])

lemma show_nat_hd: "0 < n \<Longrightarrow> hd (show_nat n) \<noteq> CHR ''0''"
proof (induction n rule: show_nat.induct)
  case (1 n)
  then show ?case by (cases "n < 10") (simp_all add: show_nat.simps [of n])
qed

lemma show_nat_short: "n < 1000 \<Longrightarrow> length (show_nat n) \<le> 3"
  by (simp add: show_nat.simps [of n] show_nat.simps [of "n div 10"] show_nat.simps [of "n div 10 div 10"])

lemma read_octet_show: "read_octet (show_nat (unat b)) = Some b"
proof -
  have b: "unat b < 256" by (rule unat_u8_less)
  have "\<not> (1 < length (show_nat (unat b)) \<and> hd (show_nat (unat b)) = CHR ''0'')"
    using show_nat_hd [of "unat b"] by (cases "unat b = 0") (auto simp: show_nat.simps [of 0])
  then show ?thesis
    using b show_nat_short [of "unat b"] show_nat_digits [of "unat b"]
    by (simp add: read_octet_def)
qed

lemma split_on_no_sep: "x \<notin> set p \<Longrightarrow> split_on x p = [p]"
  by (induction p) auto

lemma split_on_append: "x \<notin> set p \<Longrightarrow> split_on x (p @ x # s) = p # split_on x s"
proof (induction p)
  case Nil
  have "split_on x s \<noteq> []" by (induction s) (auto split: list.splits)
  then show ?case by (auto split: list.splits)
qed auto

lemma show_ip_form:
  "show_ip (ipv4_new a b c d) =
     show_nat (unat a) @ ''.'' @ show_nat (unat b) @ ''.'' @ show_nat (unat c) @ ''.'' @ show_nat (unat d)"
  by (simp add: show_ip_def octets_def ipv4_new_def u32_bytes_inverse)

lemma ipv4_from_show: "ipv4_from_str (show_ip (ipv4_new a b c d)) = Some (ipv4_new a b c d)"
  by (simp add: ipv4_from_str_def show_ip_form split_on_append split_on_no_sep show_nat_no_dot
      read_octet_show)

lemma ipv4_cases: obtains a b c d where "ip = ipv4_new a b c d"
  using u32_from_be_parts [of ip] unfolding ipv4_new_def by metis


text \<open>The reader accepts nothing but what the writer writes.\<close>

lemma digit_char_value: "is_digit c \<Longrightarrow> digit_char (digit_value c) = c"
proof -
  assume d: "is_digit c"
  define n where "n = (of_char c :: nat) - 48"
  have "n < 10" and c: "of_char c = n + 48" using d by (auto simp: is_digit_def n_def)
  then have "n \<in> {0, 1, 2, 3, 4, 5, 6, 7, 8, 9}" by auto
  then have "of_char (digit_char n) = (of_char c :: nat)"
    unfolding c by (auto simp: digit_char_def)
  then show ?thesis by (simp add: digit_value_def n_def)
qed

lemma digits_canonical:
  assumes "list_all is_digit s" and "s \<noteq> []" and "1 < length s \<Longrightarrow> hd s \<noteq> CHR ''0''"
  shows "s = show_nat (digits_value s)"
  using assms
proof (induction s rule: rev_induct)
  case (snoc c s)
  have c: "is_digit c" "digit_value c < 10"
    using snoc.prems(1) by (auto simp: is_digit_def digit_value_def)
  show ?case
  proof (cases "s = []")
    case True
    then show ?thesis
      using c by (simp add: digits_value_def show_nat.simps [of "digit_value c"] digit_char_value)
  next
    case False
    with snoc have s: "s = show_nat (digits_value s)" and h: "hd s \<noteq> CHR ''0''" by auto
    have "digits_value s \<noteq> 0"
    proof
      assume "digits_value s = 0"
      with s have "s = ''0''" by (simp add: show_nat.simps [of 0] digit_char_def)
      with h show False by simp
    qed
    moreover have "digit_char (10 * digits_value s + digit_value c) = c"
      using digit_char_value [OF c(1)] by (simp add: digit_char_def)
    ultimately show ?thesis
      using c s by (simp add: show_nat.simps [of "10 * digits_value s + digit_value c"])
  qed
qed simp

lemma read_octet_canonical: "read_octet s = Some b \<Longrightarrow> s = show_nat (unat b)"
proof -
  assume r: "read_octet s = Some b"
  then have "b = of_nat (digits_value s)" "digits_value s \<le> 255"
    by (auto simp: read_octet_def split: if_splits)
  then have "unat b = digits_value s" by (simp add: unat_of_nat)
  then show ?thesis
    using r digits_canonical [of s] by (simp add: read_octet_def split: if_splits)
qed

fun join_with :: "char \<Rightarrow> string list \<Rightarrow> string" where
  "join_with x [] = []"
| "join_with x [p] = p"
| "join_with x (p # q # ps) = p @ x # join_with x (q # ps)"

lemma split_on_join: "join_with x (split_on x s) = s"
proof (induction s)
  case (Cons c s)
  obtain p ps where "split_on x s = p # ps"
    by (cases "split_on x s") (induction s, auto split: list.splits if_splits)
  with Cons show ?case by (cases ps) auto
qed simp

text \<open>
  Claim C40: addresses as text. The reader accepts exactly the canonical dotted decimals that the
  writer produces and is its inverse; everything else is \<open>InvalidIp\<close> with the offending text.
\<close>

theorem parse_ip4_iff:
  "(parse_ip4 s = Ok ip \<longleftrightarrow> s = show_ip ip) \<and>
   (parse_ip4 s = Err (InvalidIp s) \<longleftrightarrow> s \<notin> range show_ip)"
proof -
  have ok: "ipv4_from_str s = Some ip' \<longleftrightarrow> s = show_ip ip'" for ip'
  proof
    assume "ipv4_from_str s = Some ip'"
    then obtain a b c d where parts: "map read_octet (split_on (CHR ''.'') s) = [Some a, Some b, Some c, Some d]"
      and ip': "ip' = ipv4_new a b c d"
      by (auto simp: ipv4_from_str_def split: list.splits option.splits)
    then have "split_on (CHR ''.'') s =
        [show_nat (unat a), show_nat (unat b), show_nat (unat c), show_nat (unat d)]"
      by (auto dest: read_octet_canonical)
    then show "s = show_ip ip'"
      using split_on_join [of "CHR ''.''" s] by (simp add: ip' show_ip_form)
  next
    assume "s = show_ip ip'"
    then show "ipv4_from_str s = Some ip'"
      by (cases ip' rule: ipv4_cases) (simp add: ipv4_from_show)
  qed
  then have "ipv4_from_str s = None \<longleftrightarrow> s \<notin> range show_ip" by (metis not_Some_eq rangeE rangeI)
  with ok [of ip] show ?thesis
    by (cases "ipv4_from_str s") (auto simp: parse_ip4_def)
qed

end
