(* ===== verification/Dhcp.thy ===== *)
theory Dhcp
  imports Arp Inet_Checksum Ipv4
begin

text \<open>
  \<^verbatim>\<open>src/dhcp.rs\<close>: building DISCOVER and REQUEST, scanning options, and the exchange over
  the bulk endpoints. The three option loops of the code are three definitions; their
  specification is \<open>tlvs\<close>, the options of an area of bytes. What the \<open>unsafe\<close> code reads of
  a \<open>DhcpPacket\<close> it has a reference to is read field by field.
\<close>

section \<open>Building the messages\<close>

definition DHCP_FIXED_SIZE :: nat where [simp]: "DHCP_FIXED_SIZE = 240"

text \<open>A sequence of assignments \<open>buf[i] = v;\<close>.\<close>

fun assign_all :: "u8 list \<Rightarrow> (nat \<times> u8) list \<Rightarrow> u8 list outcome" where
  "assign_all buf [] = Ok buf"
| "assign_all buf ((i, v) # ws) = and_then (store buf i v) (\<lambda>buf. assign_all buf ws)"

definition discover_packet :: "mac \<Rightarrow> u32 \<Rightarrow> dhcp_packet outcome" where
  "discover_packet mac xid =
     and_then (copy_range (replicate 16 0) 0 6 (mac_bytes mac)) (\<lambda>c. Ok
       \<lparr>dhcp_op = 1, htype = 1, hlen = 6, hops = 0, dhcp_xid = u32_to_be xid, secs = 0,
        dhcp_flags = u16_to_be 0x8000, ciaddr = 0, yiaddr = 0, siaddr = 0, giaddr = 0,
        chaddr = c, sname = replicate 64 0, boot_file = replicate 128 0,
        dhcp_magic = u32_to_be DHCP_MAGIC_COOKIE, dhcp_options = replicate 312 0\<rparr>)"

definition build_discover :: "u8 list \<Rightarrow> mac \<Rightarrow> u32 \<Rightarrow> (nat \<times> u8 list) outcome" where
  "build_discover buf mac xid =
     (let eth_size = eth_hdr_size; ip_size = 20; udp_size = 8; dhcp_min_size = 300;
          total = eth_size + dhcp_min_size in
      if length buf < total then Err (BufferTooSmall total (length buf))
      else
        let buf = replicate (length buf) 0;
            eth = \<lparr>eth_dst = mac_broadcast, eth_src = mac, eth_type = u16_to_be 0x0800\<rparr> in
        and_then (write_raw buf 0 (eth_hdr_bytes eth)) (\<lambda>buf.
        let ip_start = eth_size; udp_start = ip_start + ip_size; dhcp_start = udp_start + udp_size;
            dhcp_len_val = dhcp_min_size - ip_size - udp_size;
            udp_len = of_nat (udp_size + dhcp_len_val) :: u16;
            ip_len_val = of_nat (ip_size + udp_size + dhcp_len_val) :: u16 in
        and_then (assign_all buf
          [(ip_start, 0x45), (ip_start + 8, 64), (ip_start + 9, 0x11),
           (udp_start, ucast (drop_bit 8 DHCP_CLIENT_PORT)), (udp_start + 1, ucast DHCP_CLIENT_PORT),
           (udp_start + 2, ucast (drop_bit 8 DHCP_SERVER_PORT)), (udp_start + 3, ucast DHCP_SERVER_PORT),
           (udp_start + 4, ucast (drop_bit 8 udp_len)), (udp_start + 5, ucast udp_len),
           (ip_start + 2, ucast (drop_bit 8 ip_len_val)), (ip_start + 3, ucast ip_len_val),
           (ip_start + 16, 0xFF), (ip_start + 17, 0xFF), (ip_start + 18, 0xFF), (ip_start + 19, 0xFF)])
          (\<lambda>buf.
        and_then (discover_packet mac xid) (\<lambda>dhcp.
        and_then (write_raw buf dhcp_start (dhcp_packet_bytes dhcp)) (\<lambda>buf.
        let opts_start = dhcp_start + 240 in
        and_then (assign_all buf
          [(opts_start, 53), (opts_start + 1, 1), (opts_start + 2, 1), (opts_start + 3, 55),
           (opts_start + 4, 3), (opts_start + 5, 1), (opts_start + 6, 3), (opts_start + 7, 6),
           (opts_start + 8, 0xFF)]) (\<lambda>buf.
        and_then (subslice buf ip_start (ip_start + ip_size)) (\<lambda>iph.
        let ip_sum = checksum iph in
        and_then (assign_all buf
          [(ip_start + 10, ucast (drop_bit 8 ip_sum)), (ip_start + 11, ucast ip_sum)]) (\<lambda>buf.
        Ok (total, buf)))))))))"

definition build_request ::
  "u8 list \<Rightarrow> mac \<Rightarrow> u32 \<Rightarrow> ipv4 \<Rightarrow> ipv4 \<Rightarrow> (nat \<times> u8 list) outcome" where
  "build_request buf mac xid offered_ip server_ip =
     and_then (build_discover buf mac xid) (\<lambda>(total, buf).
     let opts_start = eth_hdr_size + 20 + 8 + 240 in
     and_then (assign_all buf
       [(opts_start, 53), (opts_start + 1, 1), (opts_start + 2, 3),
        (opts_start + 3, 50), (opts_start + 4, 4)]) (\<lambda>buf.
     and_then (copy_range buf (opts_start + 5) (opts_start + 9) (u32_to_be_bytes offered_ip)) (\<lambda>buf.
     and_then (assign_all buf [(opts_start + 9, 54), (opts_start + 10, 4)]) (\<lambda>buf.
     and_then (copy_range buf (opts_start + 11) (opts_start + 15) (u32_to_be_bytes server_ip)) (\<lambda>buf.
     and_then (assign_all buf
       [(opts_start + 15, 55), (opts_start + 16, 3), (opts_start + 17, 1), (opts_start + 18, 3),
        (opts_start + 19, 6), (opts_start + 20, 0xFF)]) (\<lambda>buf.
     Ok (total, buf)))))))"

section \<open>Scanning options\<close>

text \<open>\<open>(gateway, netmask, dns1, dns2)\<close>.\<close>

type_synonym dhcp_opts = "ipv4 option \<times> ipv4 option \<times> ipv4 option \<times> ipv4 option"

definition opt_ip :: "u8 list \<Rightarrow> nat \<Rightarrow> ipv4 outcome" where
  "opt_ip opts i = and_then (subslice opts i (i + 4)) u32_of_be_slice"

definition take_option :: "u8 list \<Rightarrow> nat \<Rightarrow> u8 \<Rightarrow> nat \<Rightarrow> dhcp_opts \<Rightarrow> dhcp_opts outcome" where
  "take_option opts i tag olen acc = (case acc of (gateway, netmask, dns1, dns2) \<Rightarrow>
     if tag = 1 \<and> olen \<ge> 4 then
       and_then (opt_ip opts (i + 2)) (\<lambda>a. Ok (gateway, Some a, dns1, dns2))
     else if tag = 3 \<and> olen \<ge> 4 then
       and_then (opt_ip opts (i + 2)) (\<lambda>a. Ok (Some a, netmask, dns1, dns2))
     else if tag = 6 \<and> olen \<ge> 4 then
       and_then (opt_ip opts (i + 2)) (\<lambda>a.
       if olen \<ge> 8 then
         and_then (opt_ip opts (i + 6)) (\<lambda>b. Ok (gateway, netmask, Some a, Some b))
       else Ok (gateway, netmask, Some a, dns2))
     else Ok acc)"

function parse_options_from :: "u8 list \<Rightarrow> nat \<Rightarrow> dhcp_opts \<Rightarrow> dhcp_opts outcome" where
  "parse_options_from opts i acc =
     (if i < length opts then
        and_then (index opts i) (\<lambda>tag.
        if tag = 0xFF then Ok acc
        else if tag = 0 then parse_options_from opts (i + 1) acc
        else if i + 1 \<ge> length opts then Ok acc
        else
          and_then (index opts (i + 1)) (\<lambda>l. let olen = unat l in
          if i + 2 + olen > length opts then Ok acc
          else
            and_then (take_option opts i tag olen acc) (\<lambda>acc.
            parse_options_from opts (i + 2 + olen) acc)))
      else Ok acc)"
  by pat_completeness auto
termination
  by (relation "measure (\<lambda>(opts, i, _). length opts - i)") auto

declare parse_options_from.simps [simp del]

definition parse_dhcp_options :: "u8 list \<Rightarrow> dhcp_opts outcome" where
  "parse_dhcp_options opts = parse_options_from opts 0 (None, None, None, None)"

text \<open>
  The loop of the offer handler: message type and server address. Unlike the other two it
  does not check that an option's bytes are there.
\<close>

function scan_offer_from :: "u8 list \<Rightarrow> nat \<Rightarrow> u8 \<times> ipv4 option \<Rightarrow> (u8 \<times> ipv4 option) outcome" where
  "scan_offer_from opts i st = (case st of (msg_type, server_addr) \<Rightarrow>
     if i < length opts then
        and_then (index opts i) (\<lambda>tag.
        if tag = 0xFF then Ok st
        else if tag = 0 then scan_offer_from opts (i + 1) st
        else if i + 1 \<ge> length opts then Ok st
        else
          and_then (index opts (i + 1)) (\<lambda>l. let olen = unat l in
          and_then (if tag = 53 \<and> olen \<ge> 1 then index opts (i + 2) else Ok msg_type) (\<lambda>msg_type.
          and_then (if tag = 54 \<and> olen \<ge> 4 then map_ok Some (opt_ip opts (i + 2)) else Ok server_addr)
            (\<lambda>server_addr.
          scan_offer_from opts (i + 2 + olen) (msg_type, server_addr)))))
      else Ok st)"
  by pat_completeness auto
termination
  by (relation "measure (\<lambda>(opts, i, _). length opts - i)") auto

declare scan_offer_from.simps [simp del]

text \<open>The loop of the ACK handler: the message type only.\<close>

function scan_ack_from :: "u8 list \<Rightarrow> nat \<Rightarrow> nat \<Rightarrow> u8 \<Rightarrow> u8 outcome" where
  "scan_ack_from opts opts_end i msg_type =
     (if i < length opts \<and> i < opts_end then
        and_then (index opts i) (\<lambda>tag.
        if tag = 0xFF then Ok msg_type
        else if tag = 0 then scan_ack_from opts opts_end (i + 1) msg_type
        else if i + 1 \<ge> length opts \<or> i + 1 \<ge> opts_end then Ok msg_type
        else
          and_then (index opts (i + 1)) (\<lambda>l. let olen = unat l in
          if i + 2 + olen > length opts \<or> i + 2 + olen > opts_end then Ok msg_type
          else
            and_then (if tag = 53 \<and> olen \<ge> 1 then index opts (i + 2) else Ok msg_type) (\<lambda>msg_type.
            scan_ack_from opts opts_end (i + 2 + olen) msg_type)))
      else Ok msg_type)"
  by pat_completeness auto
termination
  by (relation "measure (\<lambda>(opts, _, i, _). length opts - i)") auto

declare scan_ack_from.simps [simp del]

section \<open>The two frame handlers\<close>

text \<open>
  What both handlers check first, in the same words: an IPv4/UDP frame to the client port
  whose payload carries the magic cookie and our transaction id. The result is where the
  DHCP packet starts.
\<close>

definition read_field :: "u8 list \<Rightarrow> nat \<Rightarrow> u32 outcome" where
  "read_field frame off = and_then (read_raw frame off 4) (\<lambda>b. map_ok u32_of_be (u32_of_le_slice b))"

definition dhcp_start_of :: "u8 list \<Rightarrow> u32 \<Rightarrow> nat option outcome" where
  "dhcp_start_of frame xid =
     (if length frame < eth_hdr_size + 20 + 8 + DHCP_FIXED_SIZE then Ok None
      else
        and_then (map_ok eth_hdr_of_bytes (read_raw frame 0 eth_hdr_size)) (\<lambda>eth.
        if u16_of_be (eth_type eth) \<noteq> 0x0800 then Ok None
        else
          and_then (subslice_from frame eth_hdr_size) (\<lambda>ip_hdr.
          if length ip_hdr < 20 then Ok None
          else
          and_then (index ip_hdr 9) (\<lambda>proto.
          if proto \<noteq> 0x11 then Ok None
          else
            and_then (index ip_hdr 0) (\<lambda>ver_ihl.
            let ip_hl = unat (ver_ihl AND 0x0F) * 4; udp_start = eth_hdr_size + ip_hl in
            if udp_start + 10 > length frame then Ok None
            else
              and_then (index frame (udp_start + 2)) (\<lambda>p0.
              and_then (index frame (udp_start + 3)) (\<lambda>p1.
              if u16_from_be p0 p1 \<noteq> DHCP_CLIENT_PORT then Ok None
              else
                let dhcp_start = udp_start + 8 in
                and_then (read_field frame (dhcp_start + 236)) (\<lambda>magic.
                if magic \<noteq> DHCP_MAGIC_COOKIE then Ok None
                else
                  and_then (read_field frame (dhcp_start + 4)) (\<lambda>x.
                  if x \<noteq> xid then Ok None else Ok (Some dhcp_start))))))))))"

record offer_state =
  offered_addr :: "ipv4 option"
  server_addr :: "ipv4 option"
  final_opts :: dhcp_opts

definition offer_state_start :: offer_state where
  "offer_state_start =
     \<lparr>offered_addr = None, server_addr = None, final_opts = (None, None, None, None)\<rparr>"

definition process_frame :: "u32 \<Rightarrow> u8 list \<Rightarrow> offer_state \<Rightarrow> offer_state outcome" where
  "process_frame xid frame st =
     and_then (dhcp_start_of frame xid) (\<lambda>r. case r of None \<Rightarrow> Ok st
     | Some dhcp_start \<Rightarrow>
         and_then (subslice_from frame (dhcp_start + 240)) (\<lambda>opts.
         and_then (scan_offer_from opts 0 (0, server_addr st)) (\<lambda>(msg_type, srv).
         let st = st\<lparr>server_addr := srv\<rparr> in
         and_then (read_field frame (dhcp_start + 16)) (\<lambda>yiaddr.
         if msg_type = 2 then
           and_then (parse_dhcp_options opts) (\<lambda>os.
           Ok (st\<lparr>offered_addr := Some yiaddr, final_opts := os\<rparr>))
         else Ok st))))"

definition ip_or_default :: "ipv4 option \<Rightarrow> string \<Rightarrow> ipv4 outcome" where
  "ip_or_default a s = (case a of Some ip \<Rightarrow> Ok ip | None \<Rightarrow> parse_unwrap s)"

text \<open>\<open>found\<close> and \<open>result_lease\<close> are set together: the state is the lease.\<close>

definition process_ack :: "u32 \<Rightarrow> u8 list \<Rightarrow> dhcp_lease option \<Rightarrow> dhcp_lease option outcome" where
  "process_ack xid frame result_lease =
     (if result_lease \<noteq> None then Ok result_lease
      else
        and_then (dhcp_start_of frame xid) (\<lambda>r. case r of None \<Rightarrow> Ok result_lease
        | Some dhcp_start \<Rightarrow>
            and_then (subslice_from frame (dhcp_start + 240)) (\<lambda>opts.
            let opts_end = length frame - (dhcp_start + 240) in
            and_then (scan_ack_from opts opts_end 0 0) (\<lambda>msg_type.
            if msg_type = 5 then
              and_then (parse_dhcp_options opts) (\<lambda>(gw, mask, d1, d2).
              and_then (read_field frame (dhcp_start + 16)) (\<lambda>yiaddr.
              and_then (ip_or_default gw DEFAULT_GATEWAY) (\<lambda>gateway.
              and_then (ip_or_default mask DEFAULT_NETMASK) (\<lambda>netmask.
              and_then (ip_or_default d1 DEFAULT_DNS1) (\<lambda>dns1.
              and_then (ip_or_default d2 DEFAULT_DNS2) (\<lambda>dns2.
              Ok (Some \<lparr>lease_ip = yiaddr, lease_gateway = gateway, lease_netmask = netmask,
                        lease_dns1 = dns1, lease_dns2 = dns2\<rparr>)))))))
            else Ok result_lease))))"

definition default_lease :: "dhcp_lease outcome" where
  "default_lease =
     and_then (parse_unwrap DEFAULT_STATIC_IP) (\<lambda>ip.
     and_then (parse_unwrap DEFAULT_GATEWAY) (\<lambda>gateway.
     and_then (parse_unwrap DEFAULT_NETMASK) (\<lambda>netmask.
     and_then (parse_unwrap DEFAULT_DNS1) (\<lambda>dns1.
     and_then (parse_unwrap DEFAULT_DNS2) (\<lambda>dns2.
     Ok \<lparr>lease_ip = ip, lease_gateway = gateway, lease_netmask = netmask,
         lease_dns1 = dns1, lease_dns2 = dns2\<rparr>)))))"

section \<open>The exchange\<close>

text \<open>The two receive loops, at most fifty transfers of 200 ms each.\<close>

fun await_offer ::
  "('d, 'i, 'w) nusb \<Rightarrow> 'i usb_device \<Rightarrow> u32 \<Rightarrow> nat \<Rightarrow> u8 list \<Rightarrow> offer_state \<Rightarrow>
   ('w, u8 list \<times> offer_state) io" where
  "await_offer nu usb xid 0 rndis_buf st = io_lift (Ok (rndis_buf, st))"
| "await_offer nu usb xid (Suc attempts) rndis_buf st =
     io_then (recv_bulk nu usb rndis_buf 200) (\<lambda>(n, rndis_buf).
     if n = 0 then await_offer nu usb xid attempts rndis_buf st
     else
       io_then (io_lift (subslice_to rndis_buf n)) (\<lambda>data.
       io_then (io_lift (for_each_frame (process_frame xid) data 0 st)) (\<lambda>st.
       if offered_addr st \<noteq> None then io_lift (Ok (rndis_buf, st))
       else await_offer nu usb xid attempts rndis_buf st)))"

fun await_ack ::
  "('d, 'i, 'w) nusb \<Rightarrow> 'i usb_device \<Rightarrow> u32 \<Rightarrow> nat \<Rightarrow> u8 list \<Rightarrow> ('w, dhcp_lease) io" where
  "await_ack nu usb xid 0 rndis_buf = io_lift default_lease"
| "await_ack nu usb xid (Suc attempts) rndis_buf =
     io_then (recv_bulk nu usb rndis_buf 200) (\<lambda>(n, rndis_buf).
     if n = 0 then await_ack nu usb xid attempts rndis_buf
     else
       io_then (io_lift (subslice_to rndis_buf n)) (\<lambda>data.
       io_then (io_lift (for_each_frame (process_ack xid) data 0 None)) (\<lambda>lease.
       case lease of Some lease \<Rightarrow> io_lift (Ok lease)
       | None \<Rightarrow> await_ack nu usb xid attempts rndis_buf)))"

definition dhcp_xid_const :: u32 where [simp]: "dhcp_xid_const = 0x12345678"

definition send_wrapped ::
  "('d, 'i, 'w) nusb \<Rightarrow> 'i usb_device \<Rightarrow> u8 list \<Rightarrow> u8 list \<Rightarrow> nat \<Rightarrow> ('w, u8 list) io" where
  "send_wrapped nu usb rndis_buf eth_buf len =
     io_then (io_lift (and_then (subslice_to eth_buf len) (build_data_packet rndis_buf)))
       (\<lambda>(rndis_len, rndis_buf).
     io_then (io_lift (subslice_to rndis_buf rndis_len)) (\<lambda>msg.
     io_then (send_bulk nu usb msg) (\<lambda>_. io_lift (Ok rndis_buf))))"

definition discover :: "('d, 'i, 'w) nusb \<Rightarrow> 'i usb_device \<Rightarrow> mac \<Rightarrow> ('w, dhcp_lease) io" where
  "discover nu usb mac =
     (let xid = dhcp_xid_const; rndis_buf = replicate RNDIS_BUF_SIZE 0;
          eth_buf = replicate ETH_BUF_SIZE 0 in
      io_then (io_lift (build_discover eth_buf mac xid)) (\<lambda>(len, eth_buf).
      io_then (send_wrapped nu usb rndis_buf eth_buf len) (\<lambda>rndis_buf.
      io_then (await_offer nu usb xid 50 rndis_buf offer_state_start) (\<lambda>(rndis_buf, st).
      io_then (io_lift (case offered_addr st of
          Some ip \<Rightarrow> Ok ip | None \<Rightarrow> Err (Dhcp_Error ''no DHCP offer received''))) (\<lambda>offered_ip.
      let srv_ip = (case server_addr st of Some ip \<Rightarrow> ip | None \<Rightarrow> unspecified) in
      io_then (io_lift (build_request eth_buf mac xid offered_ip srv_ip)) (\<lambda>(len, eth_buf).
      io_then (send_wrapped nu usb rndis_buf eth_buf len) (\<lambda>rndis_buf.
      await_ack nu usb xid 50 rndis_buf)))))))"

section \<open>The messages on the wire\<close>

text \<open>
  An IPv4/UDP broadcast from the client to the server port around a BOOTP packet, byte by
  byte; \<open>opts\<close> are the 32 bytes of options that remain in the 314 bytes sent.
\<close>

definition ip_udp_wire :: "u8 list" where
  "ip_udp_wire =
     (let hdr = [0x45, 0, 1, 0x2C, 0, 0, 0, 0, 64, 17] in
      hdr @ u16_to_be_bytes (checksum (hdr @ [0, 0] @ [0, 0, 0, 0, 255, 255, 255, 255])) @
      [0, 0, 0, 0, 255, 255, 255, 255] @
      [0, 68, 0, 67, 1, 0x18, 0, 0])"

definition bootp_wire :: "mac \<Rightarrow> u32 \<Rightarrow> u8 list" where
  "bootp_wire mac xid =
     [1, 1, 6, 0] @ u32_to_be_bytes xid @ [0, 0] @ [0x80, 0] @ replicate 16 0 @
     mac_bytes mac @ replicate 10 0 @ replicate 64 0 @ replicate 128 0 @
     u32_to_be_bytes 0x63825363"

definition dhcp_wire :: "mac \<Rightarrow> u32 \<Rightarrow> u8 list \<Rightarrow> u8 list" where
  "dhcp_wire mac xid opts =
     mac_bytes mac_broadcast @ mac_bytes mac @ [0x08, 0] @ ip_udp_wire @ bootp_wire mac xid @
     opts @ replicate (32 - length opts) 0"

definition discover_opts :: "u8 list" where
  "discover_opts = [53, 1, 1, 55, 3, 1, 3, 6, 0xFF]"

definition request_opts :: "ipv4 \<Rightarrow> ipv4 \<Rightarrow> u8 list" where
  "request_opts ip srv =
     [53, 1, 3, 50, 4] @ u32_to_be_bytes ip @ [54, 4] @ u32_to_be_bytes srv @ [55, 3, 1, 3, 6, 0xFF]"

lemma length_dhcp_parts [simp]:
  "length ip_udp_wire = 28" "length (bootp_wire mac xid) = 240"
  "length discover_opts = 9" "length (request_opts ip srv) = 21"
  by (simp_all add: ip_udp_wire_def bootp_wire_def discover_opts_def request_opts_def Let_def)

lemma assign_all_append:
  "(\<forall>(i, v)\<in>set ws. length ps \<le> i) \<Longrightarrow>
   assign_all (ps @ xs) ws = map_ok (append ps) (assign_all xs (map (\<lambda>(i, v). (i - length ps, v)) ws))"
proof (induction ws arbitrary: xs)
  case (Cons w ws)
  obtain i v where w: "w = (i, v)" by force
  with Cons.prems have "length ps \<le> i" by simp
  then have "assign_all (ps @ xs) (w # ws) =
      and_then (store xs (i - length ps) v) (\<lambda>ys. assign_all (ps @ ys) ws)"
    by (simp add: w store_append and_then_map_ok)
  then show ?case using Cons by (simp add: w map_ok_and_then)
qed simp

lemma assign_all_front:
  "(\<forall>(i, v)\<in>set ws. i < length ps) \<Longrightarrow>
   assign_all (ps @ xs) ws = map_ok (\<lambda>qs. qs @ xs) (assign_all ps ws)"
proof (induction ws arbitrary: ps)
  case (Cons w ws)
  obtain i v where w: "w = (i, v)" by force
  with Cons.prems have "i < length ps" by simp
  then show ?case using Cons by (simp add: w store_append1 list_update_append)
qed simp


definition bootp_head :: "mac \<Rightarrow> u32 \<Rightarrow> dhcp_packet" where
  "bootp_head mac xid = \<lparr>dhcp_op = 1, htype = 1, hlen = 6, hops = 0, dhcp_xid = u32_to_be xid, secs = 0,
        dhcp_flags = u16_to_be 0x8000, ciaddr = 0, yiaddr = 0, siaddr = 0, giaddr = 0,
        chaddr = mac_bytes mac @ replicate 10 0, sname = replicate 64 0, boot_file = replicate 128 0,
        dhcp_magic = u32_to_be DHCP_MAGIC_COOKIE, dhcp_options = replicate 312 0\<rparr>"

lemma discover_packet_ok: "discover_packet mac xid = Ok (bootp_head mac xid)"
  by (simp add: discover_packet_def bootp_head_def copy_range_def)

lemma zero_bytes: "u16_to_be_bytes 0 = [0, 0]" "u32_to_be_bytes 0 = [0, 0, 0, 0]"
    "u16_to_le_bytes 0 = [0, 0]" "u32_to_le_bytes 0 = [0, 0, 0, 0]"
    "u16_to_be_bytes 0x8000 = [0x80, 0]" "u16_to_be_bytes 0x0800 = [0x08, 0]"
  by (simp_all add: u16_to_be_bytes_def u32_to_be_bytes_def u16_to_le_bytes_def u32_to_le_bytes_def)

lemma zeros_16: "[0, 0, 0, 0, 0, 0, 0, 0, 0, 0, 0, 0, 0, 0, 0, 0] = replicate 16 (0 :: u8)"
  by (simp add: numeral_eq_Suc)

lemma bootp_head_bytes:
  "dhcp_packet_bytes (bootp_head mac xid) = bootp_wire mac xid @ replicate 312 0"
proof -
  have "replicate 16 (0 :: u8) = [0, 0, 0, 0] @ [0, 0, 0, 0] @ [0, 0, 0, 0] @ [0, 0, 0, 0]"
    by (simp add: numeral_eq_Suc)
  then show ?thesis
    by (simp add: dhcp_packet_bytes_def bootp_head_def bootp_wire_def zero_bytes)
qed

lemma replicate_split: "k \<le> n \<Longrightarrow> replicate n x = replicate k x @ replicate (n - k) x"
  by (simp flip: replicate_add)

lemma build_discover_large:
  assumes "314 \<le> length buf"
  shows "build_discover buf mac xid =
    (if length buf < 594 then Undefined
     else Ok (314, dhcp_wire mac xid discover_opts @ replicate (length buf - 314) 0))"
proof -
  let ?n = "length buf"
  let ?eth = "eth_hdr_bytes \<lparr>eth_dst = mac_broadcast, eth_src = mac, eth_type = u16_to_be 0x0800\<rparr>"
  have eth: "length ?eth = 14" using eth_layout.length_to_bytes by simp
  have ethw: "?eth = mac_bytes mac_broadcast @ mac_bytes mac @ [0x08, 0]"
    by (simp add: eth_hdr_bytes_def zero_bytes)
  define H where "H ck = [0x45, 0, 1, 0x2C, 0, 0, 0, 0, 64, 17] @ u16_to_be_bytes ck @
      [0, 0, 0, 0, 255, 255, 255, 255] @ [0, 68, 0, 67, 1, 0x18, 0, 0]" for ck
  have Hlen: "length (H ck) = 28" for ck by (simp add: H_def)
  let ?Z = "replicate (?n - 42) (0 :: u8)"
  let ?B = "bootp_wire mac xid"
  let ?R = "replicate 23 (0 :: u8) @ replicate 280 0 @ replicate (?n - 594) 0"
  have s1: "write_raw (replicate ?n 0) 0 ?eth = Ok (?eth @ replicate 28 0 @ ?Z)"
    using assms replicate_split [of 28 "?n - 14" "0 :: u8"] by (simp add: write_raw_0 eth)
  have z28: "replicate 28 (0 :: u8) =
      [0, 0, 0, 0, 0, 0, 0, 0, 0, 0, 0, 0, 0, 0, 0, 0, 0, 0, 0, 0, 0, 0, 0, 0, 0, 0, 0, 0]"
    by (simp add: numeral_eq_Suc)
  have s2: "assign_all (?eth @ replicate 28 0 @ ?Z)
      [(14, 0x45), (22, 64), (23, 0x11), (34, ucast (drop_bit 8 DHCP_CLIENT_PORT)),
       (35, ucast DHCP_CLIENT_PORT), (36, ucast (drop_bit 8 DHCP_SERVER_PORT)),
       (37, ucast DHCP_SERVER_PORT), (38, ucast (drop_bit 8 (280 :: u16))), (39, ucast (280 :: u16)),
       (16, ucast (drop_bit 8 (300 :: u16))), (17, ucast (300 :: u16)),
       (30, 0xFF), (31, 0xFF), (32, 0xFF), (33, 0xFF)] = Ok (?eth @ H 0 @ ?Z)"
    unfolding z28 by (simp add: assign_all_append eth H_def zero_bytes del: assign_all.simps)
      (simp add: assign_all_front del: append.simps)
  have lenB: "length (?eth @ H ck @ ?B) = 282" "length (?eth @ H ck) = 42" for ck
    by (simp_all add: eth Hlen)
  have s3: "write_raw (?eth @ H 0 @ ?Z) 42 (dhcp_packet_bytes (bootp_head mac xid)) =
      (if ?n < 594 then Undefined else Ok (?eth @ H 0 @ ?B @ replicate 312 0 @ replicate (?n - 594) 0))"
    using write_raw_append [of "?eth @ H 0" 42 ?Z] lenB(2) [of 0] assms
    by (cases "?n < 594") (simp_all add: bootp_head_bytes write_raw_0,
      simp add: write_raw_def [of "replicate (?n - 42) 0"])
  have z312: "replicate 312 (0 :: u8) = [0, 0, 0, 0, 0, 0, 0, 0, 0] @ replicate 23 0 @ replicate 280 0"
    using replicate_split [of 9 312 "0 :: u8"] replicate_split [of 23 303 "0 :: u8"]
    by (simp add: numeral_eq_Suc)
  have s4: "assign_all (?eth @ H 0 @ ?B @ replicate 312 0 @ replicate (?n - 594) 0)
      [(282, 53), (283, 1), (284, 1), (285, 55), (286, 3), (287, 1), (288, 3), (289, 6), (290, 0xFF)] =
      Ok (?eth @ H 0 @ ?B @ discover_opts @ ?R)"
    using assign_all_append [of "[(282, 53), (283, 1), (284, 1), (285, 55), (286, 3), (287, 1), (288, 3), (289, 6), (290, 0xFF)]"
        "?eth @ H 0 @ ?B" "replicate 312 0 @ replicate (?n - 594) 0"] lenB(1) [of 0]
    by (simp add: discover_opts_def z312)
  have s5: "subslice (?eth @ H 0 @ r) 14 34 = Ok ([0x45, 0, 1, 0x2C, 0, 0, 0, 0, 64, 17] @ [0, 0] @
      [0, 0, 0, 0, 255, 255, 255, 255])" for r
    using eth Hlen [of 0] by (simp add: H_def zero_bytes)
  have s6: "assign_all (?eth @ H 0 @ r) [(24, ucast (drop_bit 8 c)), (25, ucast c)] = Ok (?eth @ H c @ r)" for r c
    using assign_all_append [of "[(24, ucast (drop_bit 8 c)), (25, ucast c)]" ?eth "H 0 @ r"] eth
    by (simp add: H_def zero_bytes) (simp add: u16_to_be_bytes_def)
  let ?c = "checksum ([0x45, 0, 1, 0x2C, 0, 0, 0, 0, 64, 17] @ [0, 0] @ [0, 0, 0, 0, 255, 255, 255, 255])"
  have "build_discover buf mac xid = (if ?n < 594 then Undefined
      else Ok (314, ?eth @ H ?c @ ?B @ discover_opts @ ?R))"
    using assms s2 s4 s6 unfolding build_discover_def Let_def
    by (simp add: s1 s3 s5 discover_packet_ok del: assign_all.simps)
  moreover have "?R = replicate 23 0 @ replicate (?n - 314) 0" if "594 \<le> ?n"
    using that by (simp flip: replicate_add)
  ultimately show ?thesis
    by (simp add: ethw H_def ip_udp_wire_def dhcp_wire_def Let_def)
qed

lemma build_discover_form:
  "build_discover buf mac xid =
     (if length buf < 314 then Err (BufferTooSmall 314 (length buf))
      else if length buf < 594 then Undefined
      else Ok (314, dhcp_wire mac xid discover_opts @ replicate (length buf - 314) 0))"
proof (cases "length buf < 314")
  case False
  then show ?thesis using build_discover_large [of buf mac xid] by simp
qed (simp add: build_discover_def Let_def)

lemma build_discover_ok:
  "594 \<le> length buf \<Longrightarrow> \<exists>rest. length rest = length buf - 314 \<and>
    build_discover buf mac xid = Ok (314, dhcp_wire mac xid discover_opts @ rest)"
  by (simp add: build_discover_form)

lemma build_request_ok:
  assumes "594 \<le> length buf"
  shows "\<exists>rest. length rest = length buf - 314 \<and>
    build_request buf mac xid ip srv = Ok (314, dhcp_wire mac xid (request_opts ip srv) @ rest)"
proof -
  obtain rest where rest: "length rest = length buf - 314"
    and d: "build_discover buf mac xid = Ok (314, dhcp_wire mac xid discover_opts @ rest)"
    using build_discover_ok [OF assms] by blast
  let ?p = "mac_bytes mac_broadcast @ mac_bytes mac @ [0x08, 0] @ ip_udp_wire @ bootp_wire mac xid"
  have p: "length ?p = 282" by simp
  let ?z = "[53, 1, 1, 55, 3, 1, 3, 6, 0xFF] @
      [0, 0, 0, 0, 0, 0, 0, 0, 0, 0, 0, 0] @ replicate 11 (0 :: u8) @ rest"
  have w: "dhcp_wire mac xid discover_opts @ rest = ?p @ ?z"
    using replicate_split [of 12 23 "0 :: u8"]
    by (simp add: dhcp_wire_def discover_opts_def numeral_eq_Suc)
  have a1: "assign_all (?p @ ?z) [(282, 53), (283, 1), (284, 3), (285, 50), (286, 4)] =
      Ok (?p @ [53, 1, 3, 50, 4] @ drop 5 ?z)"
    by (subst assign_all_append) (simp_all add: p)
  have a2: "copy_range (?p @ [53, 1, 3, 50, 4] @ drop 5 ?z) 287 291 (u32_to_be_bytes ip) =
      Ok (?p @ [53, 1, 3, 50, 4] @ u32_to_be_bytes ip @ drop 9 ?z)"
    using copy_range_append [of "?p @ [53, 1, 3, 50, 4]" 287 291 "drop 5 ?z"] p
    by (simp add: copy_range_0)
  let ?q = "?p @ [53, 1, 3, 50, 4] @ u32_to_be_bytes ip"
  have q: "length ?q = 291" by simp
  have a3: "assign_all (?q @ drop 9 ?z) [(291, 54), (292, 4)] = Ok (?q @ [54, 4] @ drop 11 ?z)"
    by (subst assign_all_append) (simp_all add: q del: append_assoc)
  have a4: "copy_range (?q @ [54, 4] @ drop 11 ?z) 293 297 (u32_to_be_bytes srv) =
      Ok (?q @ [54, 4] @ u32_to_be_bytes srv @ drop 15 ?z)"
    using copy_range_append [of "?q @ [54, 4]" 293 297 "drop 11 ?z"] q
    by (simp add: copy_range_0)
  let ?r = "?q @ [54, 4] @ u32_to_be_bytes srv"
  have r: "length ?r = 297" by simp
  have a5: "assign_all (?r @ drop 15 ?z) [(297, 55), (298, 3), (299, 1), (300, 3), (301, 6), (302, 0xFF)] =
      Ok (?r @ [55, 3, 1, 3, 6, 0xFF] @ drop 21 ?z)"
    by (subst assign_all_append) (simp_all add: r del: append_assoc)
  show ?thesis
    using rest a1 a2 a3 a4 a5 unfolding build_request_def d w Let_def
    by (intro exI [of _ rest])
      (simp add: dhcp_wire_def request_opts_def del: assign_all.simps)
qed

section \<open>What the option loops compute\<close>

text \<open>
  The options of an area: padding is skipped, the end marker or an option without its length
  byte or its data ends the list.
\<close>

function tlvs :: "u8 list \<Rightarrow> (u8 \<times> u8 list) list" where
  "tlvs [] = []"
| "tlvs [t] = []"
| "tlvs (t # l # r) =
     (if t = 0xFF then []
      else if t = 0 then tlvs (l # r)
      else if unat l \<le> length r then (t, take (unat l) r) # tlvs (drop (unat l) r)
      else [])"
  by pat_completeness auto
termination
  by (relation "measure length") auto

declare tlvs.simps(3) [simp del]

definition ip_of :: "u8 list \<Rightarrow> ipv4" where
  "ip_of d = u32_from_be (d ! 0) (d ! 1) (d ! 2) (d ! 3)"

definition apply_option :: "u8 \<times> u8 list \<Rightarrow> dhcp_opts \<Rightarrow> dhcp_opts" where
  "apply_option opt acc = (case (opt, acc) of ((tag, d), (gateway, netmask, dns1, dns2)) \<Rightarrow>
     if length d < 4 then acc
     else if tag = 1 then (gateway, Some (ip_of d), dns1, dns2)
     else if tag = 3 then (Some (ip_of d), netmask, dns1, dns2)
     else if tag = 6 then
       (gateway, netmask, Some (ip_of d), if 8 \<le> length d then Some (ip_of (drop 4 d)) else dns2)
     else acc)"

definition last_type :: "u8 \<times> u8 list \<Rightarrow> u8 \<Rightarrow> u8" where
  "last_type opt msg_type = (if fst opt = 53 \<and> snd opt \<noteq> [] then hd (snd opt) else msg_type)"

definition last_server :: "u8 \<times> u8 list \<Rightarrow> ipv4 option \<Rightarrow> ipv4 option" where
  "last_server opt srv =
     (if fst opt = 54 \<and> 4 \<le> length (snd opt) then Some (ip_of (snd opt)) else srv)"

text \<open>An area whose options all have their bytes.\<close>

function complete :: "u8 list \<Rightarrow> bool" where
  "complete [] = True"
| "complete [t] = True"
| "complete (t # l # r) =
     (if t = 0xFF then True
      else if t = 0 then complete (l # r)
      else unat l \<le> length r \<and> complete (drop (unat l) r))"
  by pat_completeness auto
termination
  by (relation "measure length") auto

declare complete.simps(3) [simp del]

lemma opt_ip_ok:
  "i + 4 \<le> length opts \<Longrightarrow> opt_ip opts i = Ok (ip_of (drop i opts))"
  by (simp add: opt_ip_def take_drop_4 u32_of_be_slice_def ip_of_def)

lemma ip_of_take [simp]: "4 \<le> n \<Longrightarrow> ip_of (take n d) = ip_of d"
  by (simp add: ip_of_def)

lemma take_option_ok:
  assumes "i + 2 + olen \<le> length opts"
  shows "take_option opts i tag olen acc = Ok (apply_option (tag, take olen (drop (i + 2) opts)) acc)"
  using assms
  by (cases acc) (auto simp: take_option_def apply_option_def opt_ip_ok drop_take add.commute)

text \<open>The index at the front of the remaining bytes.\<close>

lemma drop_two:
  assumes "t # l # r = drop i opts"
  shows "i < length opts" "Suc i < length opts" "length opts = i + 2 + length r"
    "opts ! i = t" "opts ! Suc i = l" "drop (Suc i) opts = l # r" "drop (Suc (Suc i)) opts = r"
proof -
  have i: "Suc i < length opts"
    using arg_cong [OF assms, of length] by simp
  show "i < length opts" "Suc i < length opts" using i by simp_all
  show "length opts = i + 2 + length r" using arg_cong [OF assms, of length] by simp
  show "opts ! i = t" "opts ! Suc i = l" "drop (Suc i) opts = l # r" "drop (Suc (Suc i)) opts = r"
    using i Cons_nth_drop_Suc [of i opts] Cons_nth_drop_Suc [of "Suc i" opts]
    unfolding assms [symmetric] by simp_all
qed

lemma drop_one: "[t] = drop i opts \<Longrightarrow> length opts = Suc i \<and> opts ! i = t"
  by (metis Cons_nth_drop_Suc One_nat_def drop_eq_Nil length_drop list.inject
      list.size(3,4) nat_less_le not_Cons_self2 plus_1_eq_Suc add.commute le_add_diff_inverse2
      less_or_eq_imp_le linorder_not_le)

lemma parse_options_tlvs:
  "parse_options_from opts i acc = Ok (fold apply_option (tlvs (drop i opts)) acc)"
proof (induction "drop i opts" arbitrary: i acc rule: tlvs.induct)
  case 1
  then show ?case by (simp add: parse_options_from.simps [of opts i])
next
  case (2 t)
  then show ?case
    using drop_one [OF 2] unfolding 2 [symmetric]
    by (simp add: parse_options_from.simps [of opts i] parse_options_from.simps [of opts "Suc i"])
next
  case (3 t l r)
  note d = drop_two [OF "3.hyps"(3)]
  have "drop (unat l) r = drop (Suc (Suc (i + unat l))) opts"
    unfolding d(7) [symmetric] drop_drop by (simp add: add.commute)
  then show ?case
    using d "3.hyps"(1) [of "Suc i"] "3.hyps"(2) [of "Suc (Suc (i + unat l))"]
    unfolding "3.hyps"(3) [symmetric]
    by (simp add: parse_options_from.simps [of opts i] tlvs.simps(3) take_option_ok Let_def)
qed

lemma scan_ack_tlvs:
  "scan_ack_from opts (length opts) i t = Ok (fold last_type (tlvs (drop i opts)) t)"
proof (induction "drop i opts" arbitrary: i t rule: tlvs.induct)
  case 1
  then show ?case by (simp add: scan_ack_from.simps [of opts _ i])
next
  case (2 x)
  then show ?case
    using drop_one [OF 2] unfolding 2 [symmetric]
    by (simp add: scan_ack_from.simps [of opts _ i] scan_ack_from.simps [of opts _ "Suc i"])
next
  case (3 x l r)
  note d = drop_two [OF "3.hyps"(3)]
  have "drop (unat l) r = drop (Suc (Suc (i + unat l))) opts"
    unfolding d(7) [symmetric] drop_drop by (simp add: add.commute)
  moreover have "opts ! Suc (Suc i) = hd (take (unat l) r)" if "Suc 0 \<le> unat l" "unat l \<le> length r"
    using that d(3,7) hd_drop_conv_nth [of "Suc (Suc i)" opts] by (cases r) simp_all
  ultimately show ?case
    using d "3.hyps"(1) [of "Suc i"] "3.hyps"(2) [of "Suc (Suc (i + unat l))"]
    unfolding "3.hyps"(3) [symmetric]
    by (auto simp: scan_ack_from.simps [of opts _ i] tlvs.simps(3) last_type_def Let_def)
qed

lemma scan_offer_tlvs:
  assumes "complete (drop i opts)"
  shows "scan_offer_from opts i (t, srv) =
    Ok (fold last_type (tlvs (drop i opts)) t, fold last_server (tlvs (drop i opts)) srv)"
  using assms
proof (induction "drop i opts" arbitrary: i t srv rule: tlvs.induct)
  case 1
  then show ?case by (simp add: scan_offer_from.simps [of opts i])
next
  case (2 x)
  then show ?case
    using drop_one [OF 2(1)] unfolding 2(1) [symmetric]
    by (simp add: scan_offer_from.simps [of opts i] scan_offer_from.simps [of opts "Suc i"])
next
  case (3 x l r)
  note d = drop_two [OF "3.hyps"(3)]
  have dr: "drop (unat l) r = drop (Suc (Suc (i + unat l))) opts"
    unfolding d(7) [symmetric] drop_drop by (simp add: add.commute)
  have hd: "opts ! Suc (Suc i) = hd (take (unat l) r)" if "Suc 0 \<le> unat l" "unat l \<le> length r"
    using that d(3,7) hd_drop_conv_nth [of "Suc (Suc i)" opts] by (cases r) simp_all
  have ip: "opt_ip opts (Suc (Suc i)) = Ok (ip_of r)" if "4 \<le> unat l" "unat l \<le> length r"
    using that d(3,7) opt_ip_ok [of "Suc (Suc i)" opts] by simp
  note step = scan_offer_from.simps [of opts i] tlvs.simps(3) d(1-6) Let_def
  consider "x = 255" | "x = 0" "complete (l # r)"
    | "x \<noteq> 255" "x \<noteq> 0" "unat l \<le> length r" "complete (drop (unat l) r)"
    using "3.prems" unfolding "3.hyps"(3) [symmetric] by (auto simp: complete.simps(3) split: if_splits)
  then show ?case
  proof cases
    case 1
    then show ?thesis unfolding "3.hyps"(3) [symmetric] by (simp add: step)
  next
    case 2
    then show ?thesis
      using "3.hyps"(1) [of "Suc i"] unfolding "3.hyps"(3) [symmetric] by (simp add: step)
  next
    case 3
    have "Suc 0 \<le> unat l \<longleftrightarrow> take (unat l) r \<noteq> []"
      using 3 by (cases r) auto
    with 3 hd ip show ?thesis
      using "3.hyps"(2) [of "Suc (Suc (i + unat l))"] dr unfolding "3.hyps"(3) [symmetric]
      by (simp add: step last_type_def last_server_def min_def)
  qed
qed

section \<open>What the handlers compute\<close>

text \<open>
  A DHCP reply for transaction \<open>xid\<close> inside an Ethernet frame, read off the bytes;
  \<open>dhcp_at\<close> is where the DHCP packet starts, from the length field of the IP header.
\<close>

definition dhcp_at :: "u8 list \<Rightarrow> nat" where
  "dhcp_at frame = 22 + 4 * unat (frame ! 14 AND 0x0F)"

definition is_dhcp_reply :: "u32 \<Rightarrow> u8 list \<Rightarrow> bool" where
  "is_dhcp_reply xid frame \<longleftrightarrow>
     282 \<le> length frame \<and> take 2 (drop 12 frame) = [0x08, 0] \<and> frame ! 23 = 17 \<and>
     (let d = dhcp_at frame in
      take 2 (drop (d - 6) frame) = [0, 68] \<and>
      take 4 (drop (d + 236) frame) = u32_to_be_bytes DHCP_MAGIC_COOKIE \<and>
      take 4 (drop (d + 4) frame) = u32_to_be_bytes xid)"

text \<open>The frame holds the fixed part of the packet its IP header announces.\<close>

definition fixed_part_inside :: "u8 list \<Rightarrow> bool" where
  "fixed_part_inside frame \<longleftrightarrow> 282 \<le> length frame \<longrightarrow> dhcp_at frame + 240 \<le> length frame"

definition dhcp_opts_of :: "u8 list \<Rightarrow> (u8 \<times> u8 list) list" where
  "dhcp_opts_of frame = tlvs (drop (dhcp_at frame + 240) frame)"

definition yiaddr_of :: "u8 list \<Rightarrow> ipv4" where
  "yiaddr_of frame = ip_of (drop (dhcp_at frame + 16) frame)"

lemma read_field_ok:
  "off + 4 \<le> length frame \<Longrightarrow> read_field frame off = Ok (ip_of (drop off frame))"
  by (simp add: read_field_def read_raw_def take_drop_4 u32_of_le_slice_def ip_of_def)

lemma ip_of_eq_iff:
  "off + 4 \<le> length frame \<Longrightarrow> ip_of (drop off frame) = w \<longleftrightarrow> take 4 (drop off frame) = u32_to_be_bytes w"
  by (simp add: ip_of_def u32_from_be_eq_iff take_drop_4)

lemma dhcp_start_exact:
  assumes "fixed_part_inside frame"
  shows "dhcp_start_of frame xid = Ok (if is_dhcp_reply xid frame then Some (dhcp_at frame) else None)"
proof (cases "length frame < 282")
  case False
  define k where "k = 4 * unat (frame ! 14 AND 0x0F)"
  have d: "dhcp_at frame = 22 + k" "k + 262 \<le> length frame"
    using assms False by (auto simp: fixed_part_inside_def dhcp_at_def k_def)
  have et: "u16_of_be (eth_type (eth_hdr_of_bytes (take 14 frame))) = 0x0800 \<longleftrightarrow>
      take 2 (drop 12 frame) = [0x08, 0]"
    using False by (simp add: eth_hdr_of_bytes_def take_drop_2 u16_from_be_eq_iff zero_bytes)
  have port: "u16_from_be (frame ! (16 + k)) (frame ! (17 + k)) = 68 \<longleftrightarrow>
      take 2 (drop (16 + k) frame) = [0, 68]"
    using d by (simp add: u16_from_be_eq_iff take_drop_2) (simp add: u16_to_be_bytes_def)
  have k': "unat (frame ! 14 AND 0xF) * 4 = k" by (simp add: k_def)
  show ?thesis
    using False d et port
    by (simp add: dhcp_start_of_def is_dhcp_reply_def read_raw_def k' Let_def read_field_ok
        ip_of_eq_iff add.commute)
qed (simp add: dhcp_start_of_def is_dhcp_reply_def)

lemma process_frame_exact:
  assumes "fixed_part_inside frame" and "complete (drop (dhcp_at frame + 240) frame)"
  shows "process_frame xid frame st = Ok
    (if is_dhcp_reply xid frame then
       let os = dhcp_opts_of frame; st = st\<lparr>server_addr := fold last_server os (server_addr st)\<rparr> in
       if fold last_type os 0 = 2
       then st\<lparr>offered_addr := Some (yiaddr_of frame),
               final_opts := fold apply_option os (None, None, None, None)\<rparr>
       else st
     else st)"
proof (cases "is_dhcp_reply xid frame")
  case True
  then have "dhcp_at frame + 240 \<le> length frame"
    using assms(1) by (simp add: fixed_part_inside_def is_dhcp_reply_def)
  with True assms show ?thesis
    by (simp add: process_frame_def dhcp_start_exact scan_offer_tlvs [where i = 0, simplified]
        read_field_ok parse_dhcp_options_def parse_options_tlvs yiaddr_of_def dhcp_opts_of_def Let_def)
qed (simp add: process_frame_def dhcp_start_exact assms)

lemma ipv4_consts:
  "ipv4_from_str DEFAULT_STATIC_IP = Some (ipv4_new 192 168 42 100)"
  "ipv4_from_str DEFAULT_GATEWAY = Some (ipv4_new 192 168 42 129)"
  "ipv4_from_str DEFAULT_NETMASK = Some (ipv4_new 255 255 255 0)"
  "ipv4_from_str DEFAULT_DNS1 = Some (ipv4_new 8 8 8 8)"
  "ipv4_from_str DEFAULT_DNS2 = Some (ipv4_new 8 8 4 4)"
  by (simp_all add: ipv4_from_str_def read_octet_def is_digit_def digits_value_def digit_value_def
      DEFAULT_STATIC_IP_def DEFAULT_GATEWAY_def DEFAULT_NETMASK_def DEFAULT_DNS1_def DEFAULT_DNS2_def)

text \<open>The lease of an ACK: its address, its options, and the program's defaults for the rest.\<close>

fun lease_of :: "ipv4 \<Rightarrow> dhcp_opts \<Rightarrow> dhcp_lease" where
  "lease_of ip (gw, nm, d1, d2) =
     \<lparr>lease_ip = ip,
      lease_gateway = (case gw of Some a \<Rightarrow> a | None \<Rightarrow> ipv4_new 192 168 42 129),
      lease_netmask = (case nm of Some a \<Rightarrow> a | None \<Rightarrow> ipv4_new 255 255 255 0),
      lease_dns1 = (case d1 of Some a \<Rightarrow> a | None \<Rightarrow> ipv4_new 8 8 8 8),
      lease_dns2 = (case d2 of Some a \<Rightarrow> a | None \<Rightarrow> ipv4_new 8 8 4 4)\<rparr>"

lemma default_lease_ok:
  "default_lease = Ok (lease_of (ipv4_new 192 168 42 100) (None, None, None, None))"
  by (simp add: default_lease_def parse_unwrap_def ipv4_consts)

lemma ip_or_default_ok:
  "ip_or_default a s = (case a of Some ip \<Rightarrow> Ok ip | None \<Rightarrow> parse_unwrap s)"
  by (simp add: ip_or_default_def)

lemma process_ack_exact:
  assumes "fixed_part_inside frame"
  shows "process_ack xid frame lease = Ok
    (if lease = None \<and> is_dhcp_reply xid frame \<and> fold last_type (dhcp_opts_of frame) 0 = 5
     then Some (lease_of (yiaddr_of frame) (fold apply_option (dhcp_opts_of frame) (None, None, None, None)))
     else lease)"
proof (cases "lease = None \<and> is_dhcp_reply xid frame")
  case True
  then have d: "dhcp_at frame + 240 \<le> length frame"
    using assms(1) by (simp add: fixed_part_inside_def is_dhcp_reply_def)
  obtain gw nm d1 d2 where os: "fold apply_option (dhcp_opts_of frame) (None, None, None, None) = (gw, nm, d1, d2)"
    by (cases "fold apply_option (dhcp_opts_of frame) (None, None, None, None)") auto
  have sc: "scan_ack_from (drop (dhcp_at frame + 240) frame) (length frame - (dhcp_at frame + 240)) 0 0 =
      Ok (fold last_type (dhcp_opts_of frame) 0)"
    using scan_ack_tlvs [of "drop (dhcp_at frame + 240) frame" 0 0] by (simp add: dhcp_opts_of_def)
  show ?thesis
    using True assms d os sc unfolding dhcp_opts_of_def
    by (auto simp: process_ack_def dhcp_start_exact read_field_ok yiaddr_of_def
        parse_dhcp_options_def parse_options_tlvs ip_or_default_ok parse_unwrap_def ipv4_consts
        Let_def split: option.splits)
qed (auto simp: process_ack_def dhcp_start_exact assms)

section \<open>The messages of the client\<close>

text \<open>What the client asks for, as options.\<close>

lemma tlvs_end [simp]: "tlvs (0xFF # r) = []"
  by (cases r) (simp_all add: tlvs.simps(3))

lemma complete_end [simp]: "complete (0xFF # r)"
  by (cases r) (simp_all add: complete.simps(3))

lemma tlvs_client_opts:
  "tlvs (discover_opts @ r) = [(53, [1]), (55, [1, 3, 6])]"
  "tlvs (request_opts ip srv @ r) =
     [(53, [3]), (50, u32_to_be_bytes ip), (54, u32_to_be_bytes srv), (55, [1, 3, 6])]"
  by (simp_all add: discover_opts_def request_opts_def tlvs.simps(3) u32_to_be_bytes_def)

lemma drop_dhcp_wire:
  "drop 282 (dhcp_wire mac xid opts) = opts @ replicate (32 - length opts) 0"
  by (simp add: dhcp_wire_def)

lemma dhcp_wire_header_verifies: "verifies (take 20 (drop 14 (dhcp_wire mac xid opts)))"
  using dhcp_ck.filled_verifies [of "[0x45, 0, 1, 0x2C, 0, 0, 0, 0, 64, 17]" "[0, 0, 0, 0, 255, 255, 255, 255]"]
  by (simp add: dhcp_wire_def ip_udp_wire_def Let_def)

text \<open>
  Claim C29: the two client messages. Into a buffer that holds a whole DHCP packet behind the headers,
  DISCOVER and REQUEST are written as 314 bytes of Ethernet, IPv4, UDP and BOOTP whose IP header
  verifies, whose length fields fit the 314 bytes, and whose options are exactly the message type, the
  requested address and the server's address (REQUEST), and the parameters asked for.
\<close>

theorem dhcp_messages_wire:
  assumes "594 \<le> length buf"
  shows "\<exists>dis req rest1 rest2.
    build_discover buf mac xid = Ok (314, dis @ rest1) \<and>
    build_request buf mac xid ip srv = Ok (314, req @ rest2) \<and>
    dis = dhcp_wire mac xid discover_opts \<and> req = dhcp_wire mac xid (request_opts ip srv) \<and>
    length dis = 314 \<and> length req = 314 \<and>
    (\<forall>m \<in> {dis, req}. verifies (take 20 (drop 14 m)) \<and>
       256 * unat (m ! 16) + unat (m ! 17) = length m - 14 \<and>
       256 * unat (m ! 38) + unat (m ! 39) = length m - 34) \<and>
    tlvs (drop 282 dis) = [(53, [1]), (55, [1, 3, 6])] \<and>
    tlvs (drop 282 req) =
      [(53, [3]), (50, u32_to_be_bytes ip), (54, u32_to_be_bytes srv), (55, [1, 3, 6])]"
proof -
  have len: "length (dhcp_wire mac xid opts) = 314" if "length opts \<le> 32" for opts
    using that by (simp add: dhcp_wire_def)
  have fields: "256 * unat (dhcp_wire mac xid opts ! 16) + unat (dhcp_wire mac xid opts ! 17) = 300 \<and>
      256 * unat (dhcp_wire mac xid opts ! 38) + unat (dhcp_wire mac xid opts ! 39) = 280" for opts
    by (simp add: dhcp_wire_def ip_udp_wire_def nth_append Let_def)
  show ?thesis
    using build_discover_ok [OF assms, of mac xid] build_request_ok [OF assms, of mac xid ip srv]
      len [of discover_opts] len [of "request_opts ip srv"] fields dhcp_wire_header_verifies
    by (fastforce simp: drop_dhcp_wire tlvs_client_opts)
qed

theorem dhcp_messages_wire_witness:
  "\<exists>rest. build_discover (replicate 2048 0) (Mac 2 0 0 0 0 1) 0x12345678 =
     Ok (314, dhcp_wire (Mac 2 0 0 0 0 1) 0x12345678 discover_opts @ rest)"
  using dhcp_messages_wire [of "replicate 2048 0" "Mac 2 0 0 0 0 1" "0x12345678"] by auto

text \<open>Options as a server writes them.\<close>

definition encode_options :: "(u8 \<times> u8 list) list \<Rightarrow> u8 list" where
  "encode_options os = concat (map (\<lambda>(t, d). t # of_nat (length d) # d) os)"

definition option_ok :: "u8 \<times> u8 list \<Rightarrow> bool" where
  "option_ok opt \<longleftrightarrow> fst opt \<noteq> 0 \<and> fst opt \<noteq> 0xFF \<and> length (snd opt) < 256"

lemma tlvs_encode:
  assumes "list_all option_ok os"
  shows "tlvs (encode_options os @ r) = os @ tlvs r \<and>
    (complete (encode_options os @ r) \<longleftrightarrow> complete r)"
  using assms
proof (induction os)
  case (Cons opt os)
  obtain t d where opt: "opt = (t, d)" by force
  have "unat (of_nat (length d) :: u8) = length d"
    using Cons.prems by (simp add: opt option_ok_def unat_of_nat)
  then show ?case
    using Cons by (simp add: encode_options_def opt tlvs.simps(3) complete.simps(3) option_ok_def)
qed (simp add: encode_options_def)

text \<open>
  Claim C28: option areas. Whatever the bytes, \<open>parse_dhcp_options\<close> never reads outside the area and
  never fails: its result is that of the well-formed options before the end marker or the first
  truncated option, the last one winning; the ACK's type scan reads the same options; and an encoded
  list of options, whatever follows the end marker, is read back as that list.
\<close>

theorem dhcp_options_exact:
  "parse_dhcp_options area = Ok (fold apply_option (tlvs area) (None, None, None, None)) \<and>
   scan_ack_from area (length area) 0 0 = Ok (fold last_type (tlvs area) 0) \<and>
   (list_all option_ok os \<longrightarrow> tlvs (encode_options os @ 0xFF # junk) = os)"
  using parse_options_tlvs [of area 0] scan_ack_tlvs [of area 0 0]
  by (simp add: parse_dhcp_options_def tlvs_encode)

theorem dhcp_options_exact_witness:
  "parse_dhcp_options (encode_options [(3, [10, 0, 0, 1]), (6, [8, 8, 8, 8, 8, 8, 4, 4])] @ [0xFF, 7]) =
     Ok (Some 0x0A000001, None, Some 0x08080808, Some 0x08080404)"
proof -
  let ?os = "[(3, [10, 0, 0, 1]), (6, [8, 8, 8, 8, 8, 8, 4, 4])] :: (u8 \<times> u8 list) list"
  have "list_all option_ok ?os" by (simp add: option_ok_def)
  then show ?thesis
    using dhcp_options_exact [of "encode_options ?os @ [0xFF, 7]" ?os "[7]"]
    by (simp add: apply_option_def ip_of_def u32_from_be_def)
qed

text \<open>
  The offer handler has no such check: a message-type option whose byte is missing at the very end
  of the frame is an index out of range.
\<close>

lemma offer_scan_panics: "scan_offer_from [53, 1] 0 (0, None) = Panic"
  by (simp add: scan_offer_from.simps [of "[53, 1]"] index_def)

text \<open>
  Claim C27: the two frame handlers. On a frame that holds the packet its IP header announces, the offer
  handler (with whole options) and the ACK handler (with any bytes) run without a fault and react to a
  DHCP reply for our transaction only: an OFFER records the address and the options, an ACK becomes
  the lease with the defaults for what is missing, once, and every other frame changes nothing but the
  server address.
\<close>

theorem dhcp_handlers_exact:
  assumes "fixed_part_inside frame"
  shows "(complete (drop (dhcp_at frame + 240) frame) \<longrightarrow> process_frame xid frame st = Ok
      (if is_dhcp_reply xid frame then
         let os = dhcp_opts_of frame; st = st\<lparr>server_addr := fold last_server os (server_addr st)\<rparr> in
         if fold last_type os 0 = 2
         then st\<lparr>offered_addr := Some (yiaddr_of frame),
                 final_opts := fold apply_option os (None, None, None, None)\<rparr>
         else st
       else st)) \<and>
    process_ack xid frame lease = Ok
      (if lease = None \<and> is_dhcp_reply xid frame \<and> fold last_type (dhcp_opts_of frame) 0 = 5
       then Some (lease_of (yiaddr_of frame) (fold apply_option (dhcp_opts_of frame) (None, None, None, None)))
       else lease)"
  using process_frame_exact [OF assms] process_ack_exact [OF assms] by blast

text \<open>A server's message, for the concrete instances.\<close>

definition server_frame :: "u32 \<Rightarrow> ipv4 \<Rightarrow> (u8 \<times> u8 list) list \<Rightarrow> u8 list" where
  "server_frame xid yi os =
     replicate 12 0 @ [0x08, 0] @ [0x45] @ replicate 8 0 @ [17] @ replicate 10 0 @ [0, 67, 0, 68] @
     replicate 4 0 @ [2, 1, 6, 0] @ u32_to_be_bytes xid @ replicate 8 0 @ u32_to_be_bytes yi @
     replicate 216 0 @ u32_to_be_bytes DHCP_MAGIC_COOKIE @ encode_options os @ [0xFF]"

lemma server_frame_at: "dhcp_at (server_frame xid yi os) = 42"
  by (simp add: dhcp_at_def server_frame_def nth_append)

lemma server_frame_reply: "is_dhcp_reply xid (server_frame xid yi os)"
  by (simp add: is_dhcp_reply_def server_frame_at) (simp add: server_frame_def nth_append)

lemma server_frame_fields:
  assumes "list_all option_ok os"
  shows "fixed_part_inside (server_frame xid yi os)"
    and "complete (drop (dhcp_at (server_frame xid yi os) + 240) (server_frame xid yi os))"
    and "dhcp_opts_of (server_frame xid yi os) = os"
    and "yiaddr_of (server_frame xid yi os) = yi"
proof -
  have d: "drop 282 (server_frame xid yi os) = encode_options os @ [0xFF]"
    by (simp add: server_frame_def)
  show "fixed_part_inside (server_frame xid yi os)"
    by (simp add: fixed_part_inside_def server_frame_at)
  show "complete (drop (dhcp_at (server_frame xid yi os) + 240) (server_frame xid yi os))"
    "dhcp_opts_of (server_frame xid yi os) = os"
    using tlvs_encode [OF assms, of "[0xFF]"] by (simp_all add: server_frame_at d dhcp_opts_of_def)
  have "drop 58 (server_frame xid yi os) = u32_to_be_bytes yi @ replicate 216 0 @
      u32_to_be_bytes DHCP_MAGIC_COOKIE @ encode_options os @ [0xFF]"
    by (simp add: server_frame_def)
  then show "yiaddr_of (server_frame xid yi os) = yi"
    by (simp add: yiaddr_of_def server_frame_at ip_of_def u32_to_be_bytes_def)
qed

theorem dhcp_handlers_exact_witness:
  "process_ack 7 (server_frame 7 0xC0A82A05 [(53, [5]), (3, [192, 168, 42, 129])]) None =
     Ok (Some \<lparr>lease_ip = 0xC0A82A05, lease_gateway = 0xC0A82A81, lease_netmask = ipv4_new 255 255 255 0,
          lease_dns1 = ipv4_new 8 8 8 8, lease_dns2 = ipv4_new 8 8 4 4\<rparr>)"
proof -
  let ?os = "[(53, [5]), (3, [192, 168, 42, 129])] :: (u8 \<times> u8 list) list"
  have ok: "list_all option_ok ?os" by (simp add: option_ok_def)
  have "fold last_type ?os 0 = 5" "fold apply_option ?os (None, None, None, None) = (Some 0xC0A82A81, None, None, None)"
    by (simp_all add: last_type_def apply_option_def ip_of_def u32_from_be_def)
  then show ?thesis
    using dhcp_handlers_exact [OF server_frame_fields(1) [OF ok], where lease = None and xid = 7]
      server_frame_fields [OF ok] server_frame_reply
    by (simp add: del: fold_simps)
qed

section \<open>The exchange with a scripted device\<close>

lemma send_bulk_script:
  "send_bulk (scripted_nusb config) dev data w =
     (Ok (length data), w\<lparr>bulk_sent := bulk_sent w @ [data]\<rparr>)"
  by (simp add: send_bulk_def io_then_def scripted_nusb_def)

lemma recv_bulk_script:
  "recv_bulk (scripted_nusb config) dev buf t w =
     (case bulk_replies w of
        [] \<Rightarrow> (Ok (0, buf), w)
      | r # rs \<Rightarrow> if length r \<le> length buf
          then (Ok (length r, overlay r buf), w\<lparr>bulk_replies := rs\<rparr>)
          else (Ok (length buf, take (length buf) r), w\<lparr>bulk_replies := rs\<rparr>))"
  by (auto simp: recv_bulk_def recv_on_def io_then_def scripted_nusb_def copy_range_0 Let_def
      overlay_def split: list.splits)

lemma send_wrapped_script:
  assumes "length m + 44 \<le> length rndis_buf"
  shows "send_wrapped (scripted_nusb config) dev rndis_buf (m @ rest) (length m) w =
    (Ok (overlay (data_message m) rndis_buf), w\<lparr>bulk_sent := bulk_sent w @ [data_message m]\<rparr>)"
  using assms build_data_packet_ok [of m rndis_buf]
  by (simp add: send_wrapped_def io_then_def io_lift_def send_bulk_script overlay_def)

text \<open>Transfers without a frame, or with one frame, and idle polls.\<close>

lemma await_offer_script:
  assumes "bulk_replies w = replicate j [] @ data_message f # rs" and "j < n"
    and "f \<noteq> []" and "44 + length f \<le> length buf" and "length buf < 2 ^ 32"
    and "process_frame xid f st = Ok st'" and "offered_addr st' \<noteq> None"
  shows "await_offer (scripted_nusb config) dev xid n buf st w =
    (Ok (overlay (data_message f) buf, st'), w\<lparr>bulk_replies := rs\<rparr>)"
  using assms(1,2)
proof (induction j arbitrary: n w)
  case 0
  then obtain n' where n: "n = Suc n'" by (cases n) auto
  have "for_each_frame (process_frame xid) (data_message f) 0 st = process_frame xid f st"
    using rndis_drv.unwrap_frames [of "data_message f" "process_frame xid" st] rndis_drv.frames_message [of f] assms(3-5)
    by (simp add: unwrap_data_def)
  with 0 n assms show ?case
    by (simp add: io_then_def recv_bulk_script io_lift_def)
next
  case (Suc j)
  then obtain n' where n: "n = Suc n'" by (cases n) auto
  have "overlay [] buf = buf" by (simp add: overlay_def)
  with Suc n show ?case
    by (simp add: io_then_def recv_bulk_script io_lift_def)
qed

lemma await_ack_script:
  assumes "bulk_replies w = replicate j [] @ data_message f # rs" and "j < n"
    and "f \<noteq> []" and "44 + length f \<le> length buf" and "length buf < 2 ^ 32"
    and "process_ack xid f None = Ok (Some lease)"
  shows "await_ack (scripted_nusb config) dev xid n buf w = (Ok lease, w\<lparr>bulk_replies := rs\<rparr>)"
  using assms(1,2)
proof (induction j arbitrary: n w)
  case 0
  then obtain n' where n: "n = Suc n'" by (cases n) auto
  have "for_each_frame (process_ack xid) (data_message f) 0 None = process_ack xid f None"
    using rndis_drv.unwrap_frames [of "data_message f" "process_ack xid" None]
      rndis_drv.frames_message [of f] assms(3-5) by (simp add: unwrap_data_def)
  with 0 n assms show ?case
    by (simp add: io_then_def recv_bulk_script io_lift_def)
next
  case (Suc j)
  then obtain n' where n: "n = Suc n'" by (cases n) auto
  have "overlay [] buf = buf" by (simp add: overlay_def)
  with Suc n show ?case
    by (simp add: io_then_def recv_bulk_script io_lift_def)
qed

text \<open>A device that stays silent.\<close>

lemma await_offer_silent:
  "bulk_replies w = [] \<Longrightarrow>
   await_offer (scripted_nusb config) dev xid n buf st w = (Ok (buf, st), w)"
  by (induction n) (simp_all add: io_lift_def io_then_def recv_bulk_script)

lemma await_ack_silent:
  "bulk_replies w = [] \<Longrightarrow>
   await_ack (scripted_nusb config) dev xid n buf w = (default_lease, w)"
  by (induction n) (simp_all add: io_lift_def io_then_def recv_bulk_script)

text \<open>
  The first half: DISCOVER is sent, and what the offer loop left behind decides.
\<close>

lemma send_wrapped_wire:
  assumes "length opts \<le> 32" and "length buf = RNDIS_BUF_SIZE"
  shows "send_wrapped (scripted_nusb config) dev buf (dhcp_wire mac xid opts @ rest) 314 w =
    (Ok (overlay (data_message (dhcp_wire mac xid opts)) buf),
     w\<lparr>bulk_sent := bulk_sent w @ [data_message (dhcp_wire mac xid opts)]\<rparr>)"
proof -
  have "length (dhcp_wire mac xid opts) = 314" using assms by (simp add: dhcp_wire_def)
  with send_wrapped_script [of "dhcp_wire mac xid opts" buf config dev rest w] assms(2)
  show ?thesis by simp
qed

text \<open>Up to the REQUEST, when an offer comes in time; and when nothing comes.\<close>

definition server_of :: "u8 list \<Rightarrow> ipv4" where
  "server_of off = (case fold last_server (dhcp_opts_of off) None of Some ip \<Rightarrow> ip | None \<Rightarrow> unspecified)"

definition offer_ok :: "u8 list \<Rightarrow> bool" where
  "offer_ok off \<longleftrightarrow> 44 + length off \<le> RNDIS_BUF_SIZE \<and> fixed_part_inside off \<and>
     complete (drop (dhcp_at off + 240) off) \<and> is_dhcp_reply dhcp_xid_const off \<and>
     fold last_type (dhcp_opts_of off) 0 = 2"

lemma offer_taken:
  assumes "offer_ok off"
  shows "process_frame dhcp_xid_const off offer_state_start =
    Ok \<lparr>offered_addr = Some (yiaddr_of off), server_addr = fold last_server (dhcp_opts_of off) None,
        final_opts = fold apply_option (dhcp_opts_of off) (None, None, None, None)\<rparr>" and "off \<noteq> []"
  using assms process_frame_exact [of off dhcp_xid_const offer_state_start]
  by (auto simp: offer_ok_def offer_state_start_def is_dhcp_reply_def Let_def simp del: dhcp_xid_const_def)

text \<open>The first message, the buffers it leaves, and what \<open>discover\<close> does from there.\<close>

lemma discover_sent:
  "\<exists>rest buf. build_discover (replicate ETH_BUF_SIZE 0) mac dhcp_xid_const =
      Ok (314, dhcp_wire mac dhcp_xid_const discover_opts @ rest) \<and> length rest = ETH_BUF_SIZE - 314 \<and>
    length buf = RNDIS_BUF_SIZE \<and>
    (\<forall>w. send_wrapped (scripted_nusb config) dev (replicate RNDIS_BUF_SIZE 0)
        (dhcp_wire mac dhcp_xid_const discover_opts @ rest) 314 w =
      (Ok buf, w\<lparr>bulk_sent := bulk_sent w @ [data_message (dhcp_wire mac dhcp_xid_const discover_opts)]\<rparr>))"
proof -
  let ?dis = "dhcp_wire mac dhcp_xid_const discover_opts"
  obtain rest where "length rest = ETH_BUF_SIZE - 314"
    and "build_discover (replicate ETH_BUF_SIZE 0) mac dhcp_xid_const = Ok (314, ?dis @ rest)"
    using build_discover_ok [of "replicate ETH_BUF_SIZE 0" mac dhcp_xid_const] by auto
  moreover have "length ?dis = 314" by (simp add: dhcp_wire_def)
  ultimately show ?thesis
    by (intro exI [of _ rest] exI [of _ "overlay (data_message ?dis) (replicate RNDIS_BUF_SIZE 0)"])
      (simp add: send_wrapped_wire)
qed

lemma discover_silent:
  assumes "bulk_replies w = []"
  shows "discover (scripted_nusb config) dev mac w = (Err (Dhcp_Error ''no DHCP offer received''),
    w\<lparr>bulk_sent := bulk_sent w @ [data_message (dhcp_wire mac dhcp_xid_const discover_opts)]\<rparr>)"
proof -
  let ?dis = "dhcp_wire mac dhcp_xid_const discover_opts"
  let ?w1 = "w\<lparr>bulk_sent := bulk_sent w @ [data_message ?dis]\<rparr>"
  obtain rest buf where d: "build_discover (replicate ETH_BUF_SIZE 0) mac dhcp_xid_const = Ok (314, ?dis @ rest)"
    "send_wrapped (scripted_nusb config) dev (replicate RNDIS_BUF_SIZE 0) (?dis @ rest) 314 w = (Ok buf, ?w1)"
    using discover_sent [of mac config dev] by blast
  have silent: "await_offer (scripted_nusb config) dev dhcp_xid_const 50 buf offer_state_start ?w1 =
      (Ok (buf, offer_state_start), ?w1)"
    by (rule await_offer_silent) (simp add: assms)
  show ?thesis
    unfolding discover_def Let_def
    by (simp add: io_then_def io_lift_def d silent del: RNDIS_BUF_SIZE_def ETH_BUF_SIZE_def dhcp_xid_const_def)
      (simp add: offer_state_start_def)
qed

lemma discover_offered:
  assumes "bulk_replies w = replicate j [] @ data_message off # rs" and "j < 50" and "offer_ok off"
  shows "\<exists>buf. length buf = RNDIS_BUF_SIZE \<and> discover (scripted_nusb config) dev mac w =
    await_ack (scripted_nusb config) dev dhcp_xid_const 50 buf
      (w\<lparr>bulk_replies := rs, bulk_sent := bulk_sent w @ [data_message (dhcp_wire mac dhcp_xid_const discover_opts),
         data_message (dhcp_wire mac dhcp_xid_const (request_opts (yiaddr_of off) (server_of off)))]\<rparr>)"
proof -
  let ?xid = dhcp_xid_const and ?nu = "scripted_nusb config"
  let ?dis = "dhcp_wire mac ?xid discover_opts"
  let ?req = "dhcp_wire mac ?xid (request_opts (yiaddr_of off) (server_of off))"
  let ?w1 = "w\<lparr>bulk_sent := bulk_sent w @ [data_message ?dis]\<rparr>"
  obtain rest buf1 where d: "build_discover (replicate ETH_BUF_SIZE 0) mac ?xid = Ok (314, ?dis @ rest)"
    "length rest = ETH_BUF_SIZE - 314" "length buf1 = RNDIS_BUF_SIZE"
    "send_wrapped ?nu dev (replicate RNDIS_BUF_SIZE 0) (?dis @ rest) 314 w = (Ok buf1, ?w1)"
    using discover_sent [of mac config dev] by blast
  have dl: "length ?dis = 314" "length ?req = 314" by (simp_all add: dhcp_wire_def)
  obtain rest2 where b2: "build_request (?dis @ rest) mac ?xid (yiaddr_of off) (server_of off) = Ok (314, ?req @ rest2)"
    using build_request_ok [of "?dis @ rest" mac ?xid "yiaddr_of off" "server_of off"] d(2) dl by auto
  define buf2 where "buf2 = overlay (data_message off) buf1"
  have l2: "length buf2 = RNDIS_BUF_SIZE" using d(3) assms(3) by (simp add: buf2_def offer_ok_def)
  note taken = offer_taken [OF assms(3)]
  have r1: "await_offer ?nu dev ?xid 50 buf1 offer_state_start ?w1 =
      (Ok (buf2, \<lparr>offered_addr = Some (yiaddr_of off), server_addr = fold last_server (dhcp_opts_of off) None,
         final_opts = fold apply_option (dhcp_opts_of off) (None, None, None, None)\<rparr>), ?w1\<lparr>bulk_replies := rs\<rparr>)"
    unfolding buf2_def
    by (rule await_offer_script [OF _ assms(2) taken(2) _ _ taken(1)])
      (use assms(1,3) d(3) in \<open>simp_all add: offer_ok_def\<close>)
  have s2: "send_wrapped ?nu dev buf2 (?req @ rest2) 314 w' =
      (Ok (overlay (data_message ?req) buf2), w'\<lparr>bulk_sent := bulk_sent w' @ [data_message ?req]\<rparr>)" for w'
    by (rule send_wrapped_wire) (simp_all add: l2 del: RNDIS_BUF_SIZE_def)
  show ?thesis
    unfolding discover_def Let_def
    by (intro exI [of _ "overlay (data_message ?req) buf2"])
      (simp add: io_then_def io_lift_def d(1,4) r1 b2 s2 l2 dl server_of_def [symmetric]
        del: RNDIS_BUF_SIZE_def ETH_BUF_SIZE_def dhcp_xid_const_def, simp)
qed

text \<open>
  Claim C7: the exchange. A device that is idle for less than fifty polls, offers an address, is idle
  again for less than fifty polls and acknowledges, gives the lease of the acknowledgement; the program
  sends DISCOVER and then REQUEST for the offered address at the offering server, and nothing else.
\<close>

theorem dhcp_exchange:
  assumes "bulk_replies w = replicate j [] @ data_message off # replicate k [] @ [data_message ack]"
    and "j < 50" and "k < 50" and "44 + length off \<le> RNDIS_BUF_SIZE" and "44 + length ack \<le> RNDIS_BUF_SIZE"
    and "fixed_part_inside off" and "complete (drop (dhcp_at off + 240) off)"
    and "is_dhcp_reply dhcp_xid_const off" and "fold last_type (dhcp_opts_of off) 0 = 2"
    and "fixed_part_inside ack" and "is_dhcp_reply dhcp_xid_const ack"
    and "fold last_type (dhcp_opts_of ack) 0 = 5"
    and "fold last_server (dhcp_opts_of off) None = Some srv"
  shows "discover (scripted_nusb config) dev mac w =
    (Ok (lease_of (yiaddr_of ack) (fold apply_option (dhcp_opts_of ack) (None, None, None, None))),
     w\<lparr>bulk_sent := bulk_sent w @
         [data_message (dhcp_wire mac dhcp_xid_const discover_opts),
          data_message (dhcp_wire mac dhcp_xid_const (request_opts (yiaddr_of off) srv))],
       bulk_replies := []\<rparr>)"
proof -
  have off: "offer_ok off" "server_of off = srv" using assms(4,6-9,13) by (simp_all add: offer_ok_def server_of_def)
  obtain buf where buf: "length buf = RNDIS_BUF_SIZE" and d: "discover (scripted_nusb config) dev mac w =
      await_ack (scripted_nusb config) dev dhcp_xid_const 50 buf
        (w\<lparr>bulk_replies := replicate k [] @ [data_message ack],
           bulk_sent := bulk_sent w @ [data_message (dhcp_wire mac dhcp_xid_const discover_opts),
             data_message (dhcp_wire mac dhcp_xid_const (request_opts (yiaddr_of off) srv))]\<rparr>)"
    using discover_offered [OF assms(1,2) off(1), of config dev mac] off(2) by auto
  have ack: "process_ack dhcp_xid_const ack None = Ok (Some (lease_of (yiaddr_of ack)
      (fold apply_option (dhcp_opts_of ack) (None, None, None, None))))"
    using process_ack_exact [OF assms(10)] assms(11,12) by simp
  have "ack \<noteq> []" using assms(11) by (auto simp: is_dhcp_reply_def)
  then show ?thesis
    unfolding d by (subst await_ack_script [OF _ assms(3) _ _ _ ack, where rs = "[]"]) (use assms(5) buf in simp_all)
qed

theorem dhcp_exchange_witness:
  "\<exists>w. discover (scripted_nusb phone_config) phone (Mac 2 0 0 0 0 1) (script_start\<lparr>bulk_replies :=
      [[], data_message (server_frame dhcp_xid_const 0xC0A82A05 [(53, [2]), (54, [192, 168, 42, 129])]),
       [], [], data_message (server_frame dhcp_xid_const 0xC0A82A05 [(53, [5]), (3, [192, 168, 42, 129])])]\<rparr>) =
     (Ok \<lparr>lease_ip = 0xC0A82A05, lease_gateway = 0xC0A82A81, lease_netmask = ipv4_new 255 255 255 0,
          lease_dns1 = ipv4_new 8 8 8 8, lease_dns2 = ipv4_new 8 8 4 4\<rparr>, w)"
proof -
  let ?os1 = "[(53, [2]), (54, [192, 168, 42, 129])] :: (u8 \<times> u8 list) list"
  let ?os2 = "[(53, [5]), (3, [192, 168, 42, 129])] :: (u8 \<times> u8 list) list"
  have ok: "list_all option_ok ?os1" "list_all option_ok ?os2" by (simp_all add: option_ok_def)
  have len: "length (server_frame x y ?os1) = 292" "length (server_frame x y ?os2) = 292" for x y
    by (simp_all add: server_frame_def encode_options_def)
  have srv: "fold last_server ?os1 None = Some 0xC0A82A81"
    by (simp add: last_server_def ip_of_def u32_from_be_def)
  have t: "fold last_type ?os1 0 = 2" "fold last_type ?os2 0 = 5" by (simp_all add: last_type_def)
  have opts: "fold apply_option ?os2 (None, None, None, None) = (Some 0xC0A82A81, None, None, None)"
    by (simp add: apply_option_def ip_of_def u32_from_be_def)
  show ?thesis
    using dhcp_exchange [of "script_start\<lparr>bulk_replies := [[], data_message (server_frame dhcp_xid_const 0xC0A82A05 ?os1),
          [], [], data_message (server_frame dhcp_xid_const 0xC0A82A05 ?os2)]\<rparr>"
        1 "server_frame dhcp_xid_const 0xC0A82A05 ?os1" 2 "server_frame dhcp_xid_const 0xC0A82A05 ?os2"
        "0xC0A82A81" phone_config phone "Mac 2 0 0 0 0 1"]
      server_frame_fields [OF ok(1)] server_frame_fields [OF ok(2)] server_frame_reply len srv t opts
    by (simp add: numeral_2_eq_2 del: dhcp_xid_const_def fold_simps)
qed

text \<open>
  Claim C30: giving up. When the device stays silent the program sends DISCOVER, polls fifty times and
  fails with ``no DHCP offer received''; when it falls silent after its offer the program has sent
  REQUEST as well, polls fifty times more and goes on with the default lease.
\<close>

theorem dhcp_gives_up:
  assumes "bulk_replies w0 = []"
    and "bulk_replies w1 = replicate j [] @ [data_message off]" and "j < 50"
    and "44 + length off \<le> RNDIS_BUF_SIZE"
    and "fixed_part_inside off" and "complete (drop (dhcp_at off + 240) off)"
    and "is_dhcp_reply dhcp_xid_const off" and "fold last_type (dhcp_opts_of off) 0 = 2"
  shows "discover (scripted_nusb config) dev mac w0 =
      (Err (Dhcp_Error ''no DHCP offer received''),
       w0\<lparr>bulk_sent := bulk_sent w0 @ [data_message (dhcp_wire mac dhcp_xid_const discover_opts)]\<rparr>) \<and>
    (\<exists>srv. discover (scripted_nusb config) dev mac w1 =
      (Ok (lease_of (ipv4_new 192 168 42 100) (None, None, None, None)),
       w1\<lparr>bulk_sent := bulk_sent w1 @
           [data_message (dhcp_wire mac dhcp_xid_const discover_opts),
            data_message (dhcp_wire mac dhcp_xid_const (request_opts (yiaddr_of off) srv))],
         bulk_replies := []\<rparr>))"
proof
  show "discover (scripted_nusb config) dev mac w0 = (Err (Dhcp_Error ''no DHCP offer received''),
      w0\<lparr>bulk_sent := bulk_sent w0 @ [data_message (dhcp_wire mac dhcp_xid_const discover_opts)]\<rparr>)"
    by (rule discover_silent [OF assms(1)])
  have "offer_ok off" using assms(4-8) by (simp add: offer_ok_def)
  from discover_offered [OF assms(2,3) this, of config dev mac] show "\<exists>srv. discover (scripted_nusb config) dev mac w1 =
      (Ok (lease_of (ipv4_new 192 168 42 100) (None, None, None, None)),
       w1\<lparr>bulk_sent := bulk_sent w1 @
           [data_message (dhcp_wire mac dhcp_xid_const discover_opts),
            data_message (dhcp_wire mac dhcp_xid_const (request_opts (yiaddr_of off) srv))],
         bulk_replies := []\<rparr>)"
    by (intro exI [of _ "server_of off"]) (auto simp: await_ack_silent default_lease_ok)
qed

theorem dhcp_gives_up_witness:
  "fst (discover (scripted_nusb phone_config) phone (Mac 2 0 0 0 0 1) script_start) =
     Err (Dhcp_Error ''no DHCP offer received'')"
proof -
  let ?off = "server_frame dhcp_xid_const 0xC0A82A05 [(53, [2])]"
  have ok: "list_all option_ok [(53, [2])]" by (simp add: option_ok_def)
  have "length ?off = 286" by (simp add: server_frame_def encode_options_def)
  then show ?thesis
    using dhcp_gives_up [of script_start "script_start\<lparr>bulk_replies := [data_message ?off]\<rparr>" 0 ?off
        phone_config phone "Mac 2 0 0 0 0 1"] server_frame_fields [OF ok] server_frame_reply
    by (simp add: script_start_def last_type_def del: dhcp_xid_const_def)
qed

text \<open>
  The size check of DISCOVER. A buffer below 314 bytes is refused with both sizes and one
  that holds the whole packet behind the headers (594 bytes) is filled; in between the check passes,
  but the packet that is written through a raw pointer does not fit.
\<close>

theorem discover_size_check:
  "build_discover buf mac xid =
     (if length buf < 314 then Err (BufferTooSmall 314 (length buf))
      else if length buf < 594 then Undefined
      else Ok (314, dhcp_wire mac xid discover_opts @ replicate (length buf - 314) 0))"
  by (rule build_discover_form)

end
