(* ===== verification/Stats.thy ===== *)
theory Stats
  imports Prelude Complex_Main
begin

text \<open>
  \<^verbatim>\<open>src/stats.rs\<close>: the counters that the I/O thread updates with \<open>fetch_add\<close> (which wraps)
  and the session reads. Rates are rational bits per second scaled to megabits, in place of
  the \<open>f64\<close> of the code.
\<close>

record shared_stats =
  tx_bytes :: u64
  rx_bytes :: u64
  tx_pkts :: u64
  rx_pkts :: u64

definition stats_default :: shared_stats where
  "stats_default = \<lparr>tx_bytes = 0, rx_bytes = 0, tx_pkts = 0, rx_pkts = 0\<rparr>"

record tether_stats =
  tx_mbps :: rat
  rx_mbps :: rat
  total_tx_bytes :: u64
  total_rx_bytes :: u64
  total_tx_pkts :: u64
  total_rx_pkts :: u64

definition snapshot :: "shared_stats \<Rightarrow> tether_stats" where
  "snapshot s =
     \<lparr>tx_mbps = 0, rx_mbps = 0, total_tx_bytes = tx_bytes s, total_rx_bytes = rx_bytes s,
      total_tx_pkts = tx_pkts s, total_rx_pkts = rx_pkts s\<rparr>"

text \<open>A packet sent, a frame delivered.\<close>

definition count_tx :: "nat \<Rightarrow> shared_stats \<Rightarrow> shared_stats" where
  "count_tx len s = s\<lparr>tx_pkts := tx_pkts s + 1, tx_bytes := tx_bytes s + of_nat len\<rparr>"

definition count_rx :: "nat \<Rightarrow> shared_stats \<Rightarrow> shared_stats" where
  "count_rx len s = s\<lparr>rx_pkts := rx_pkts s + 1, rx_bytes := rx_bytes s + of_nat len\<rparr>"

lemma fold_count_tx:
  "fold count_tx ls s = s\<lparr>tx_pkts := tx_pkts s + of_nat (length ls),
     tx_bytes := tx_bytes s + of_nat (sum_list ls)\<rparr>"
  by (induction ls arbitrary: s) (simp_all add: count_tx_def)

lemma fold_count_rx:
  "fold count_rx ls s = s\<lparr>rx_pkts := rx_pkts s + of_nat (length ls),
     rx_bytes := rx_bytes s + of_nat (sum_list ls)\<rparr>"
  by (induction ls arbitrary: s) (simp_all add: count_rx_def)

end
