(* ===== verification/Utun.thy ===== *)
theory Utun
  imports Ipv4
begin

text \<open>
  \<^verbatim>\<open>src/utun.rs\<close>: the tunnel interface of macOS. The system calls and the programs it runs
  (\<open>sh\<close>, \<open>scutil\<close>) are parameters over a world \<open>'w\<close>; a negative return value comes with
  the error \<open>last_os_error\<close> reports. The texts of the commands and scripts are built here.
\<close>

section \<open>System calls\<close>

datatype sys_error = WouldBlock | Os_Error string

record 'w sys_calls =
  sys_socket :: "'w \<Rightarrow> int \<times> 'w"
  sys_ctl_info :: "int \<Rightarrow> u8 list \<Rightarrow> 'w \<Rightarrow> (int \<times> u32) \<times> 'w"
  sys_connect :: "int \<Rightarrow> u32 \<Rightarrow> u32 \<Rightarrow> 'w \<Rightarrow> int \<times> 'w"
  sys_close :: "int \<Rightarrow> 'w \<Rightarrow> 'w"
  sys_set_buffers :: "int \<Rightarrow> nat \<Rightarrow> 'w \<Rightarrow> 'w"
  sys_get_flags :: "int \<Rightarrow> 'w \<Rightarrow> int \<times> 'w"
  sys_set_nonblock :: "int \<Rightarrow> int \<Rightarrow> 'w \<Rightarrow> 'w"
  sys_read :: "int \<Rightarrow> nat \<Rightarrow> 'w \<Rightarrow> (sys_error + u8 list) \<times> 'w"
  sys_write :: "int \<Rightarrow> u8 list \<Rightarrow> 'w \<Rightarrow> (sys_error + nat) \<times> 'w"
  run_sh :: "string \<Rightarrow> 'w \<Rightarrow> (string + nat) \<times> 'w"
  run_scutil :: "string \<Rightarrow> 'w \<Rightarrow> 'w"

record utun =
  utun_fd :: int
  utun_unit :: nat
  ifname :: string

definition bytes_of :: "string \<Rightarrow> u8 list" where
  "bytes_of s = map of_char s"

definition UTUN_CONTROL_NAME :: string where
  "UTUN_CONTROL_NAME = ''com.apple.net.utun_control'' @ [CHR 0x00]"

section \<open>Creating the interface\<close>

text \<open>The loop over the units: the first one that connects; \<open>sc_unit\<close> counts from one.\<close>

fun find_unit :: "'w sys_calls \<Rightarrow> int \<Rightarrow> u32 \<Rightarrow> nat list \<Rightarrow> 'w \<Rightarrow> nat option \<times> 'w" where
  "find_unit sys fd ctl_id [] w = (None, w)"
| "find_unit sys fd ctl_id (u # us) w =
     (case sys_connect sys fd ctl_id (of_nat u + 1) w of (ret, w) \<Rightarrow>
       if ret = 0 then (Some u, w) else find_unit sys fd ctl_id us w)"

definition utun_create :: "'w sys_calls \<Rightarrow> ('w, utun) io" where
  "utun_create sys w =
     (case sys_socket sys w of (fd, w) \<Rightarrow>
      if fd < 0 then (Err (Network ''failed to create utun socket''), w)
      else
        let name_bytes = bytes_of UTUN_CONTROL_NAME;
            copy_len = min (length name_bytes) 95 in
        case and_then (subslice_to name_bytes copy_len) (copy_range (replicate 96 0) 0 copy_len) of
          Ok ctl_name \<Rightarrow>
           (case sys_ctl_info sys fd ctl_name w of ((ret, ctl_id), w) \<Rightarrow>
            if ret < 0 then (Err (Network ''CTLIOCGINFO failed''), sys_close sys fd w)
            else
              case find_unit sys fd ctl_id [0..<256] w of
                (None, w) \<Rightarrow> (Err (Network ''no available utun unit''), w)
              | (Some u, w) \<Rightarrow>
                  let w = sys_set_buffers sys fd (4 * 1024 * 1024) w in
                  case sys_get_flags sys fd w of (flags, w) \<Rightarrow>
                    let w = (if flags \<ge> 0 then sys_set_nonblock sys fd flags w else w) in
                    (Ok \<lparr>utun_fd = fd, utun_unit = u, ifname = ''utun'' @ show_nat u\<rparr>, w))
        | Err e \<Rightarrow> (Err e, w) | Panic \<Rightarrow> (Panic, w) | Undefined \<Rightarrow> (Undefined, w))"

text \<open>\<open>impl Drop\<close>.\<close>

definition utun_drop :: "'w sys_calls \<Rightarrow> utun \<Rightarrow> 'w \<Rightarrow> 'w" where
  "utun_drop sys tun w = (if utun_fd tun \<ge> 0 then sys_close sys (utun_fd tun) w else w)"

section \<open>Packets\<close>

text \<open>An operation that would block counts as zero bytes.\<close>

definition utun_read :: "'w sys_calls \<Rightarrow> utun \<Rightarrow> nat \<Rightarrow> ('w, u8 list) io" where
  "utun_read sys tun buf_len w =
     (case sys_read sys (utun_fd tun) buf_len w of
        (Inr data, w) \<Rightarrow> (Ok data, w)
      | (Inl WouldBlock, w) \<Rightarrow> (Ok [], w)
      | (Inl (Os_Error e), w) \<Rightarrow> (Err (Network (''utun read: '' @ e)), w))"

definition utun_write :: "'w sys_calls \<Rightarrow> utun \<Rightarrow> u8 list \<Rightarrow> ('w, nat) io" where
  "utun_write sys tun buf w =
     (case sys_write sys (utun_fd tun) buf w of
        (Inr n, w) \<Rightarrow> (Ok n, w)
      | (Inl WouldBlock, w) \<Rightarrow> (Ok 0, w)
      | (Inl (Os_Error e), w) \<Rightarrow> (Err (Network (''utun write: '' @ e)), w))"

section \<open>Configuration\<close>

definition utun_configure ::
  "'w sys_calls \<Rightarrow> utun \<Rightarrow> string \<Rightarrow> string \<Rightarrow> string \<Rightarrow> ('w, unit) io" where
  "utun_configure sys tun local_ip remote_ip netmask w =
     (let cmd = ''ifconfig '' @ ifname tun @ '' inet '' @ local_ip @ '' '' @ remote_ip @
                '' netmask '' @ netmask @ '' up'' in
      case run_sh sys cmd w of
        (Inl e, w) \<Rightarrow> (Err (Network (''ifconfig failed: '' @ e)), w)
      | (Inr status, w) \<Rightarrow>
          let mtu_cmd = ''ifconfig '' @ ifname tun @ '' mtu 1500'' in
          (Ok (), snd (run_sh sys mtu_cmd w)))"

fun route_prefixes :: "'w sys_calls \<Rightarrow> string \<Rightarrow> string list \<Rightarrow> 'w \<Rightarrow> 'w" where
  "route_prefixes sys gateway [] w = w"
| "route_prefixes sys gateway (p # ps) w =
     (let w = snd (run_sh sys (''route delete -net '' @ p @ '' 2>/dev/null'') w);
          w = snd (run_sh sys (''route add -net '' @ p @ '' '' @ gateway) w) in
      route_prefixes sys gateway ps w)"

definition utun_set_default_route :: "'w sys_calls \<Rightarrow> utun \<Rightarrow> string \<Rightarrow> ('w, unit) io" where
  "utun_set_default_route sys tun gateway w =
     (let w = snd (run_sh sys (''route delete '' @ gateway @ '' 2>/dev/null'') w);
          prefixes = [''0.0.0.0/1'', ''128.0.0.0/1''] in
      (Ok (), route_prefixes sys gateway prefixes w))"

definition nl :: string where [simp]: "nl = [CHR 0x0A]"

definition service_id :: string where [simp]: "service_id = ''android-tether''"

definition ipv4_script :: "string \<Rightarrow> string \<Rightarrow> string \<Rightarrow> string \<Rightarrow> string" where
  "ipv4_script iface ip gateway netmask =
     ''d.init'' @ nl @
     ''d.add Addresses * '' @ ip @ nl @
     ''d.add SubnetMasks * '' @ netmask @ nl @
     ''d.add Router '' @ gateway @ nl @
     ''d.add InterfaceName '' @ iface @ nl @
     ''set State:/Network/Service/'' @ service_id @ ''/IPv4'' @ nl @
     ''quit'' @ nl"

definition interface_script :: "string \<Rightarrow> string" where
  "interface_script iface =
     ''d.init'' @ nl @
     ''d.add DeviceName '' @ iface @ nl @
     ''d.add Type utun'' @ nl @
     ''set State:/Network/Service/'' @ service_id @ ''/Interface'' @ nl @
     ''quit'' @ nl"

definition dns_script :: "string \<Rightarrow> string" where
  "dns_script dns_part =
     ''d.init'' @ nl @
     ''d.add ServerAddresses * '' @ dns_part @ nl @
     ''d.add SupplementalMatchDomains * '' @ [CHR 0x22, CHR 0x22] @ nl @
     ''d.add SearchOrder # 1'' @ nl @
     ''set State:/Network/Service/'' @ service_id @ ''/DNS'' @ nl @
     ''quit'' @ nl"

definition remove_script :: string where
  "remove_script =
     ''remove State:/Network/Service/'' @ service_id @ ''/IPv4'' @ nl @
     ''remove State:/Network/Service/'' @ service_id @ ''/DNS'' @ nl @
     ''remove State:/Network/Service/'' @ service_id @ ''/Interface'' @ nl @
     ''quit'' @ nl"

definition register_service ::
  "'w sys_calls \<Rightarrow> string \<Rightarrow> string \<Rightarrow> string \<Rightarrow> string \<Rightarrow> string \<Rightarrow> string \<Rightarrow> 'w \<Rightarrow> 'w" where
  "register_service sys iface ip gateway netmask dns1 dns2 w =
     (let dns_part = (if dns1 \<noteq> [] then (if dns2 \<noteq> [] then dns1 @ '' '' @ dns2 else dns1) else []);
          w = run_scutil sys (ipv4_script iface ip gateway netmask) w;
          w = run_scutil sys (interface_script iface) w in
      if dns_part \<noteq> [] then run_scutil sys (dns_script dns_part) w else w)"

definition unregister_service :: "'w sys_calls \<Rightarrow> 'w \<Rightarrow> 'w" where
  "unregister_service sys w = run_scutil sys remove_script w"

section \<open>What the scripts do to the dynamic store\<close>

text \<open>
  The keys in the system configuration's dynamic store: \<open>set\<close> adds the key of the
  dictionary built so far, \<open>remove\<close> deletes it, the other commands do not touch the keys.
\<close>

definition line_effect :: "string \<Rightarrow> string set \<Rightarrow> string set" where
  "line_effect l keys =
     (if take 4 l = ''set '' then insert (drop 4 l) keys
      else if take 7 l = ''remove '' then keys - {drop 7 l}
      else keys)"

definition script_effect :: "string \<Rightarrow> string set \<Rightarrow> string set" where
  "script_effect script keys = fold line_effect (split_on (CHR 0x0A) script) keys"

definition service_key :: "string \<Rightarrow> string" where
  "service_key k = ''State:/Network/Service/android-tether/'' @ k"

lemma script_effect_line:
  "CHR 0x0A \<notin> set l \<Longrightarrow> script_effect (l @ CHR 0x0A # s) keys = script_effect s (line_effect l keys)"
  by (simp add: script_effect_def split_on_append)

lemma script_effect_Nil [simp]: "script_effect [] keys = keys"
  by (simp add: script_effect_def line_effect_def)

text \<open>A script as its lines.\<close>

definition script_of :: "string list \<Rightarrow> string" where
  "script_of ls = concat (map (\<lambda>l. l @ [CHR 0x0A]) ls)"

lemma script_effect_lines:
  "\<forall>l\<in>set ls. CHR 0x0A \<notin> set l \<Longrightarrow> script_effect (script_of ls) keys = fold line_effect ls keys"
proof (induction ls arbitrary: keys)
  case (Cons l ls)
  then show ?case using script_effect_line [of l "script_of ls" keys] by (simp add: script_of_def)
qed (simp add: script_of_def)

lemma scripts_as_lines:
  "ipv4_script iface ip gateway netmask = script_of
     [''d.init'', ''d.add Addresses * '' @ ip, ''d.add SubnetMasks * '' @ netmask,
      ''d.add Router '' @ gateway, ''d.add InterfaceName '' @ iface,
      ''set '' @ service_key ''IPv4'', ''quit'']"
  "interface_script iface = script_of
     [''d.init'', ''d.add DeviceName '' @ iface, ''d.add Type utun'',
      ''set '' @ service_key ''Interface'', ''quit'']"
  "dns_script d = script_of
     [''d.init'', ''d.add ServerAddresses * '' @ d,
      ''d.add SupplementalMatchDomains * '' @ [CHR 0x22, CHR 0x22], ''d.add SearchOrder # 1'',
      ''set '' @ service_key ''DNS'', ''quit'']"
  "remove_script = script_of
     [''remove '' @ service_key ''IPv4'', ''remove '' @ service_key ''DNS'',
      ''remove '' @ service_key ''Interface'', ''quit'']"
  by (simp_all add: ipv4_script_def interface_script_def dns_script_def remove_script_def script_of_def
      service_key_def)

lemma script_effects:
  assumes "CHR 0x0A \<notin> set iface" "CHR 0x0A \<notin> set ip" "CHR 0x0A \<notin> set gateway"
    "CHR 0x0A \<notin> set netmask" "CHR 0x0A \<notin> set d"
  shows "script_effect (ipv4_script iface ip gateway netmask) keys = insert (service_key ''IPv4'') keys"
    and "script_effect (interface_script iface) keys = insert (service_key ''Interface'') keys"
    and "script_effect (dns_script d) keys = insert (service_key ''DNS'') keys"
    and "script_effect remove_script keys =
      keys - {service_key ''IPv4'', service_key ''DNS'', service_key ''Interface''}"
  using assms unfolding scripts_as_lines
  by (subst script_effect_lines; auto simp: line_effect_def service_key_def)+

section \<open>What the shell commands do to the routes\<close>

text \<open>
  The destinations in the routing table, a prefix or a host: \<open>route add\<close> adds one,
  \<open>route delete\<close> removes it, whoever added it; the other commands are not about routes.
\<close>

definition word_of :: "string \<Rightarrow> string" where
  "word_of s = takeWhile (\<lambda>c. c \<noteq> CHR '' '') s"

definition route_effect :: "string \<Rightarrow> string set \<Rightarrow> string set" where
  "route_effect cmd routes =
     (if take 15 cmd = ''route add -net '' then insert (word_of (drop 15 cmd)) routes
      else if take 18 cmd = ''route delete -net '' then routes - {word_of (drop 18 cmd)}
      else if take 13 cmd = ''route delete '' then routes - {word_of (drop 13 cmd)}
      else routes)"

text \<open>A world in which the programs that were run, the keys of the store and the routes are visible.\<close>

record shell_world =
  sh_log :: "string list"
  routes_of :: "string set"
  store_keys :: "string set"
  open_fds :: "int list"
  tun_log :: "u8 list list"

definition scripted_sys :: "nat set \<Rightarrow> shell_world sys_calls" where
  "scripted_sys busy =
     \<lparr>sys_socket = (\<lambda>w. (3, w\<lparr>open_fds := 3 # open_fds w\<rparr>)),
      sys_ctl_info = (\<lambda>_ _ w. ((0, 7), w)),
      sys_connect = (\<lambda>_ _ unit w. (if unat unit - 1 \<in> busy then - 1 else 0, w)),
      sys_close = (\<lambda>fd w. w\<lparr>open_fds := removeAll fd (open_fds w)\<rparr>),
      sys_set_buffers = (\<lambda>_ _ w. w),
      sys_get_flags = (\<lambda>_ w. (0, w)),
      sys_set_nonblock = (\<lambda>_ _ w. w),
      sys_read = (\<lambda>_ _ w. (Inl WouldBlock, w)),
      sys_write = (\<lambda>_ d w. (Inr (length d), w\<lparr>tun_log := tun_log w @ [d]\<rparr>)),
      run_sh = (\<lambda>cmd w. (Inr 0, w\<lparr>sh_log := sh_log w @ [cmd], routes_of := route_effect cmd (routes_of w)\<rparr>)),
      run_scutil = (\<lambda>script w. w\<lparr>store_keys := script_effect script (store_keys w)\<rparr>)\<rparr>"

section \<open>The unit\<close>

lemma find_unit_scripted:
  assumes "list_all (\<lambda>u. u < 256) us"
  shows "find_unit (scripted_sys busy) fd ctl us w = (find (\<lambda>u. u \<notin> busy) us, w)"
  using assms
proof (induction us)
  case (Cons u us)
  have "unat (of_nat u + 1 :: u32) = u + 1"
    using Cons.prems by (simp add: unat_word_ariths unat_of_nat)
  then show ?case using Cons by (simp add: scripted_sys_def)
qed simp

text \<open>
  Creating the interface takes the lowest unit that connects and names the interface after
  it; with all 256 units taken it fails, with the socket it opened still open.
\<close>

lemma utun_create_form:
  "utun_create (scripted_sys busy) w =
     (if {0..<256} \<subseteq> busy
      then (Err (Network ''no available utun unit''), w\<lparr>open_fds := 3 # open_fds w\<rparr>)
      else let u = (LEAST u. u \<notin> busy) in
        (Ok \<lparr>utun_fd = 3, utun_unit = u, ifname = ''utun'' @ show_nat u\<rparr>,
         w\<lparr>open_fds := 3 # open_fds w\<rparr>))"
proof -
  have fu: "find_unit (scripted_sys busy) 3 7 [0..<256] w' = (find (\<lambda>u. u \<notin> busy) [0..<256], w')" for w'
    by (rule find_unit_scripted) (simp add: list_all_iff)
  have name: "and_then (subslice_to (bytes_of UTUN_CONTROL_NAME) (min (length (bytes_of UTUN_CONTROL_NAME)) 95))
      (copy_range (replicate 96 0) 0 (min (length (bytes_of UTUN_CONTROL_NAME)) 95)) =
      Ok (bytes_of UTUN_CONTROL_NAME @ replicate (96 - length (bytes_of UTUN_CONTROL_NAME)) 0)"
    by (simp add: bytes_of_def UTUN_CONTROL_NAME_def copy_range_def)
  show ?thesis
  proof (cases "{0..<256} \<subseteq> busy")
    case True
    then have "find (\<lambda>u. u \<notin> busy) [0..<256] = None" by (auto simp: find_None_iff)
    then show ?thesis
      using True fu name by (simp add: utun_create_def Let_def) (simp add: scripted_sys_def)
  next
    case False
    then obtain v where v: "v < 256" "v \<notin> busy" by (metis atLeastLessThan_iff subsetI)
    define u where "u = (LEAST u. u \<notin> busy)"
    have u: "u \<notin> busy" "u \<le> v" "\<forall>j<u. j \<in> busy"
      unfolding u_def using v LeastI [of "\<lambda>u. u \<notin> busy"] Least_le [of "\<lambda>u. u \<notin> busy"] not_less_Least
      by blast+
    then have "find (\<lambda>u. u \<notin> busy) [0..<256] = Some u"
      using v by (auto simp: find_Some_iff intro!: exI [of _ u])
    then show ?thesis
      using False fu name unfolding u_def [symmetric]
      by (simp add: utun_create_def Let_def) (simp add: scripted_sys_def)
  qed
qed

end
