(* ===== verification/Usb_Io.thy ===== *)
theory Usb_Io
  imports Proto_Rndis Arp Frame Stats Utun "HOL-Library.Stream"
begin

text \<open>
  \<^verbatim>\<open>src/usb_io.rs\<close>: the I/O thread. It owns the bulk endpoints, keeps sixteen IN transfers
  submitted, turns every completed one into tunnel packets, ARP replies and a new transfer,
  and feeds the packets of the TX channel to the OUT endpoint.

  The endpoints are parameters: their operations act on a world \<open>'w\<close>, and \<open>bulk_ok\<close> states
  what the code relies on (a queue of pending transfers that \<open>submit\<close> grows and a
  completion shrinks). What other threads share with this one is part of its state: the
  channel, the gateway's address, the counters and the two flags. The TX thread fills the
  channel while this one drains it: \<open>tx_incoming\<close> says what it puts in before each of the
  following looks into the channel, and nothing is assumed of it.
\<close>

definition NUM_RX_BUFS :: nat where [simp]: "NUM_RX_BUFS = 16"
definition MAX_OUT_URBS :: nat where [simp]: "MAX_OUT_URBS = 32"

section \<open>Endpoints and state\<close>

text \<open>A buffer submitted for reading is its capacity; an OUT transfer is its bytes.\<close>

record 'w bulk_endpoints =
  in_pending :: "'w \<Rightarrow> nat"
  in_submit :: "nat \<Rightarrow> 'w \<Rightarrow> 'w"
  in_wait :: "nat \<Rightarrow> ('w, completion option) io"
  out_pending :: "'w \<Rightarrow> nat"
  out_submit :: "u8 list \<Rightarrow> 'w \<Rightarrow> 'w"
  out_wait :: "nat \<Rightarrow> ('w, completion option) io"
  tun_write :: "u8 list \<Rightarrow> ('w, nat) io"

record 'w io_state =
  io_world :: 'w
  tx_receiver :: "u8 list list"
  tx_incoming :: "u8 list list stream"
  tx_sent_count :: u64
  frame_logged :: u64
  active_rx :: u32
  io_stats :: shared_stats
  gateway_mac :: mac
  bridge_running :: bool
  device_gone :: bool

text \<open>The TX thread pauses: nothing is put in before any look.\<close>

definition no_more :: "u8 list list stream" where
  "no_more = sconst []"

lemma no_more_simps [simp]: "shd no_more = []" "stl no_more = no_more"
  by (simp_all add: no_more_def)

text \<open>A call on the world inside the state.\<close>

definition on_world :: "('w, 'a) io \<Rightarrow> ('w io_state, 'a) io" where
  "on_world m st = (case m (io_world st) of (r, w) \<Rightarrow> (r, st\<lparr>io_world := w\<rparr>))"

definition modify :: "('s \<Rightarrow> 's) \<Rightarrow> ('s, unit) io" where
  "modify f st = (Ok (), f st)"

section \<open>Sending\<close>

text \<open>
  A look into the channel: what other threads have put in since the last one comes first, then
  \<open>try_recv\<close> takes the head; an empty and a closed channel both give \<open>None\<close>.
\<close>

definition arrivals :: "'w io_state \<Rightarrow> 'w io_state" where
  "arrivals st = st\<lparr>tx_receiver := tx_receiver st @ shd (tx_incoming st), tx_incoming := stl (tx_incoming st)\<rparr>"

definition try_recv :: "'w io_state \<Rightarrow> u8 list option \<times> 'w io_state" where
  "try_recv st =
     (let st = arrivals st in
      case tx_receiver st of
        pkt # chan \<Rightarrow> (Some pkt, st\<lparr>tx_receiver := chan\<rparr>)
      | [] \<Rightarrow> (None, st))"

definition submit_packet :: "'w bulk_endpoints \<Rightarrow> u8 list \<Rightarrow> 'w io_state \<Rightarrow> 'w io_state" where
  "submit_packet ep pkt st =
     (let len = length pkt in
      st\<lparr>io_world := out_submit ep pkt (io_world st),
         tx_sent_count := tx_sent_count st + 1,
         io_stats := count_tx len (io_stats st)\<rparr>)"

text \<open>
  Topping up makes at most thirty-two looks and stops at an empty channel. A packet put in
  meanwhile goes to the tail of the channel, so it might as well have come before the first
  look, or after the last: the loop runs on the channel as it is.
\<close>

fun refill_loop :: "'w bulk_endpoints \<Rightarrow> u8 list list \<Rightarrow> 'w io_state \<Rightarrow> 'w io_state" where
  "refill_loop ep [] st = st\<lparr>tx_receiver := []\<rparr>"
| "refill_loop ep (pkt # chan) st =
     (if out_pending ep (io_world st) < MAX_OUT_URBS
      then refill_loop ep chan (submit_packet ep pkt st)
      else st\<lparr>tx_receiver := pkt # chan\<rparr>)"

definition refill_tx :: "'w bulk_endpoints \<Rightarrow> 'w io_state \<Rightarrow> 'w io_state" where
  "refill_tx ep st = refill_loop ep (tx_receiver st) st"

text \<open>
  The loop over OUT completions: every completion frees a slot for the next packet. The
  number of rounds is bounded by \<open>fuel\<close>; \<open>None\<close> means it ran out.
\<close>

fun drain_out :: "'w bulk_endpoints \<Rightarrow> nat \<Rightarrow> ('w io_state, unit option) io" where
  "drain_out ep 0 st = (Ok None, st)"
| "drain_out ep (Suc fuel) st =
     (if out_pending ep (io_world st) > 0 then
        io_then (on_world (out_wait ep 0)) (\<lambda>comp st.
          case comp of
            Some _ \<Rightarrow>
              (case try_recv st of
                 (Some pkt, st) \<Rightarrow> drain_out ep fuel (submit_packet ep pkt st)
               | (None, st) \<Rightarrow> drain_out ep fuel st)
          | None \<Rightarrow> (Ok (Some ()), st)) st
      else (Ok (Some ()), st))"

definition drain_out_and_refill :: "'w bulk_endpoints \<Rightarrow> nat \<Rightarrow> ('w io_state, unit option) io" where
  "drain_out_and_refill ep fuel =
     io_then (drain_out ep fuel) (\<lambda>r.
       case r of None \<Rightarrow> io_lift (Ok None)
       | Some _ \<Rightarrow> io_then (modify (\<lambda>st. refill_tx ep (arrivals st))) (\<lambda>_. io_lift (Ok (Some ()))))"

section \<open>Receiving\<close>

text \<open>What the frame handler changes: the state, the replies collected, its packet buffer.\<close>

record 'w rx_state =
  rx_io :: "'w io_state"
  arp_replies :: "u8 list list"
  utun_buf :: "u8 list"

text \<open>
  Every frame whose source does not begin with 255 teaches its source, the later ones too: the
  comment at \<^verbatim>\<open>src/main.rs:280\<close> speaks of the first non-broadcast frame only. The
  test is on the first byte alone, so a group address such as 01:00:5e:00:00:01 is learnt as well.
\<close>

definition learn_gateway :: "u8 list \<Rightarrow> mac \<Rightarrow> mac" where
  "learn_gateway fsrc gw =
     (if fsrc ! 0 \<noteq> 0xFF \<and> mac_bytes gw \<noteq> fsrc then mac_of_bytes fsrc else gw)"

text \<open>The counter of logged frames stops at ten.\<close>

definition log_frame :: "'w io_state \<Rightarrow> 'w io_state" where
  "log_frame st =
     (if frame_logged st < 10 then st\<lparr>frame_logged := frame_logged st + 1\<rparr> else st)"

definition on_frame ::
  "'w bulk_endpoints \<Rightarrow> mac \<Rightarrow> u32 \<Rightarrow> u8 list \<Rightarrow> 'w rx_state \<Rightarrow> 'w rx_state outcome" where
  "on_frame ep host_mac our_ip frame rx =
     (if length frame < 14 then Ok rx
      else
        and_then (index frame 12) (\<lambda>b0. and_then (index frame 13) (\<lambda>b1.
        let ethertype = u16_from_be b0 b1;
            st = log_frame (rx_io rx) in
        and_then (subslice frame 6 12) (\<lambda>fsrc.
        let st = st\<lparr>gateway_mac := learn_gateway fsrc (gateway_mac st)\<rparr>;
            rx = rx\<lparr>rx_io := st\<rparr> in
        if ethertype = ARP_ETHERTYPE then
          (case handle_request frame (replicate ETH_BUF_SIZE 0) host_mac our_ip of
             Ok (len, reply_buf) \<Rightarrow>
               if len > 0 then
                 and_then (subslice_to reply_buf len) (\<lambda>reply.
                 Ok (rx\<lparr>arp_replies := arp_replies rx @ [reply]\<rparr>))
               else Ok rx
           | Err _ \<Rightarrow> Ok rx | Panic \<Rightarrow> Panic | Undefined \<Rightarrow> Undefined)
        else
          (case eth_to_utun frame (utun_buf rx) of
             Ok (utun_len, ub) \<Rightarrow>
               if utun_len = 0 then Ok (rx\<lparr>utun_buf := ub\<rparr>)
               else
                 and_then (subslice_to ub utun_len) (\<lambda>pkt.
                 case on_world (tun_write ep pkt) st of (r, st) \<Rightarrow>
                   and_then (if r = Panic then Panic else if r = Undefined then Undefined else Ok ())
                     (\<lambda>_. Ok (rx\<lparr>rx_io := st\<lparr>io_stats := count_rx (length frame) (io_stats st)\<rparr>,
                                 utun_buf := ub\<rparr>)))
           | Err _ \<Rightarrow> Ok rx | Panic \<Rightarrow> Panic | Undefined \<Rightarrow> Undefined)))))"

text \<open>
  Submitting the buffer again; the result is whether the endpoint took it. All buffers of the
  IN endpoint come from \<open>Buffer::new(RNDIS_BUF_SIZE)\<close>, and \<open>clear\<close> keeps the capacity.
\<close>

definition resubmit :: "'w bulk_endpoints \<Rightarrow> nat \<Rightarrow> ('w io_state, bool) io" where
  "resubmit ep capacity st =
     (let pending_before = in_pending ep (io_world st);
          st = st\<lparr>io_world := in_submit ep capacity (io_world st)\<rparr> in
      (Ok (in_pending ep (io_world st) > pending_before), st))"

text \<open>Each reply is wrapped into a fresh buffer; one that does not fit is dropped.\<close>

fun send_replies :: "'w bulk_endpoints \<Rightarrow> u8 list list \<Rightarrow> ('w io_state, unit) io" where
  "send_replies ep [] st = (Ok (), st)"
| "send_replies ep (reply # replies) st =
     (case wrap_frame reply (replicate RNDIS_BUF_SIZE 0) of
        Ok (rlen, rndis_buf) \<Rightarrow>
          io_then (io_lift (subslice_to rndis_buf rlen)) (\<lambda>usb_buf.
          io_then (modify (\<lambda>st. st\<lparr>io_world := out_submit ep usb_buf (io_world st)\<rparr>)) (\<lambda>_.
          send_replies ep replies)) st
      | Err _ \<Rightarrow> send_replies ep replies st
      | Panic \<Rightarrow> (Panic, st) | Undefined \<Rightarrow> (Undefined, st))"

definition process_rx_completion ::
  "'w bulk_endpoints \<Rightarrow> mac \<Rightarrow> u32 \<Rightarrow> completion \<Rightarrow> ('w io_state, bool) io" where
  "process_rx_completion ep host_mac our_ip cpl st =
     (if comp_status cpl \<noteq> Xfer_Ok then (Ok False, st)
      else if actual_len cpl = 0 then resubmit ep RNDIS_BUF_SIZE st
      else
        let n = actual_len cpl in
        io_then (io_lift (subslice_to (comp_buffer cpl) n)) (\<lambda>data st.
          case unwrap_data data (on_frame ep host_mac our_ip)
              \<lparr>rx_io = st, arp_replies = [], utun_buf = replicate (ETH_BUF_SIZE + 4) 0\<rparr> of
            Ok rx \<Rightarrow>
              io_then (send_replies ep (arp_replies rx)) (\<lambda>_. resubmit ep RNDIS_BUF_SIZE) (rx_io rx)
          | Err _ \<Rightarrow> resubmit ep RNDIS_BUF_SIZE st
          | Panic \<Rightarrow> (Panic, st) | Undefined \<Rightarrow> (Undefined, st)) st)"

section \<open>The loop\<close>

text \<open>\<open>if !ok { active_rx = active_rx.saturating_sub(1); }\<close>\<close>

definition account_rx :: "bool \<Rightarrow> 'w io_state \<Rightarrow> 'w io_state" where
  "account_rx ok st =
     (if \<not> ok then st\<lparr>active_rx := (if active_rx st = 0 then 0 else active_rx st - 1)\<rparr> else st)"

definition handle_rx ::
  "'w bulk_endpoints \<Rightarrow> mac \<Rightarrow> u32 \<Rightarrow> completion \<Rightarrow> ('w io_state, unit) io" where
  "handle_rx ep host_mac our_ip cpl =
     io_then (process_rx_completion ep host_mac our_ip cpl) (\<lambda>ok. modify (account_rx ok))"

text \<open>The inner loop takes what has completed already, without waiting.\<close>

fun rx_ready :: "'w bulk_endpoints \<Rightarrow> mac \<Rightarrow> u32 \<Rightarrow> nat \<Rightarrow> ('w io_state, unit option) io" where
  "rx_ready ep host_mac our_ip 0 st = (Ok None, st)"
| "rx_ready ep host_mac our_ip (Suc fuel) st =
     (if in_pending ep (io_world st) > 0 then
        io_then (on_world (in_wait ep 0)) (\<lambda>extra.
          case extra of
            Some cpl \<Rightarrow>
              io_then (handle_rx ep host_mac our_ip cpl) (\<lambda>_. rx_ready ep host_mac our_ip fuel)
          | None \<Rightarrow> io_lift (Ok (Some ()))) st
      else (Ok (Some ()), st))"

text \<open>
  One round of \<open>while running\<close>: \<open>Some True\<close> goes on, \<open>Some False\<close> is the \<open>break\<close> after
  the device is gone.
\<close>

definition io_round ::
  "'w bulk_endpoints \<Rightarrow> mac \<Rightarrow> u32 \<Rightarrow> nat \<Rightarrow> ('w io_state, bool option) io" where
  "io_round ep host_mac our_ip fuel =
     io_then (on_world (in_wait ep 1)) (\<lambda>c.
     io_then
       (case c of
          Some cpl \<Rightarrow>
            io_then (handle_rx ep host_mac our_ip cpl) (\<lambda>_. rx_ready ep host_mac our_ip fuel)
        | None \<Rightarrow> io_lift (Ok (Some ())))
       (\<lambda>r st. case r of None \<Rightarrow> (Ok None, st)
        | Some _ \<Rightarrow>
          if active_rx st = 0
          then (Ok (Some False), st\<lparr>device_gone := True, bridge_running := False\<rparr>)
          else io_then (drain_out_and_refill ep fuel)
            (\<lambda>r. io_lift (Ok (map_option (\<lambda>_. True) r))) st))"

text \<open>What happens before the loop: sixteen reads are submitted, then the first packets.\<close>

definition io_start :: "'w bulk_endpoints \<Rightarrow> 'w io_state \<Rightarrow> 'w io_state" where
  "io_start ep st =
     refill_tx ep (st\<lparr>io_world := ((in_submit ep RNDIS_BUF_SIZE) ^^ NUM_RX_BUFS) (io_world st),
        frame_logged := 0, tx_sent_count := 0, active_rx := of_nat NUM_RX_BUFS\<rparr>)"

text \<open>The whole thread, at most \<open>rounds\<close> rounds.\<close>

fun io_loop :: "'w bulk_endpoints \<Rightarrow> mac \<Rightarrow> u32 \<Rightarrow> nat \<Rightarrow> nat \<Rightarrow> ('w io_state, unit option) io" where
  "io_loop ep host_mac our_ip fuel 0 st = (Ok None, st)"
| "io_loop ep host_mac our_ip fuel (Suc rounds) st =
     (if bridge_running st then
        io_then (io_round ep host_mac our_ip fuel) (\<lambda>r.
          case r of None \<Rightarrow> io_lift (Ok None)
          | Some True \<Rightarrow> io_loop ep host_mac our_ip fuel rounds
          | Some False \<Rightarrow> io_lift (Ok (Some ()))) st
      else (Ok (Some ()), st))"

definition io_run :: "'w bulk_endpoints \<Rightarrow> mac \<Rightarrow> u32 \<Rightarrow> nat \<Rightarrow> nat \<Rightarrow> ('w io_state, unit option) io" where
  "io_run ep host_mac our_ip fuel rounds st = io_loop ep host_mac our_ip fuel rounds (io_start ep st)"

section \<open>What the code relies on\<close>

text \<open>
  Submitting makes one more transfer pending. Waiting while one is pending gives nothing or
  takes one away, whose buffer holds the bytes it reports; the other endpoint and the tunnel
  are not concerned. Nothing is assumed of a wait on an endpoint without pending transfers.
\<close>

definition wait_ok :: "('w \<Rightarrow> nat) \<Rightarrow> ('w \<Rightarrow> nat) \<Rightarrow> ('w, completion option) io \<Rightarrow> bool" where
  "wait_ok this other wait \<longleftrightarrow>
     (\<forall>w. 0 < this w \<longrightarrow> (case wait w of (r, w') \<Rightarrow> other w' = other w \<and>
        (case r of
           Ok None \<Rightarrow> this w' = this w
         | Ok (Some c) \<Rightarrow> Suc (this w') = this w \<and> actual_len c \<le> length (comp_buffer c)
         | _ \<Rightarrow> False)))"

definition bulk_ok :: "'w bulk_endpoints \<Rightarrow> bool" where
  "bulk_ok ep \<longleftrightarrow>
     (\<forall>n w. in_pending ep (in_submit ep n w) = Suc (in_pending ep w) \<and>
        out_pending ep (in_submit ep n w) = out_pending ep w) \<and>
     (\<forall>d w. out_pending ep (out_submit ep d w) = Suc (out_pending ep w) \<and>
        in_pending ep (out_submit ep d w) = in_pending ep w) \<and>
     (\<forall>t. wait_ok (in_pending ep) (out_pending ep) (in_wait ep t)) \<and>
     (\<forall>t. wait_ok (out_pending ep) (in_pending ep) (out_wait ep t)) \<and>
     (\<forall>d w. no_fault (fst (tun_write ep d w)) \<and>
        in_pending ep (snd (tun_write ep d w)) = in_pending ep w \<and>
        out_pending ep (snd (tun_write ep d w)) = out_pending ep w)"

lemma bulk_submit [simp]:
  assumes "bulk_ok ep"
  shows "in_pending ep (in_submit ep n w) = Suc (in_pending ep w)"
    and "out_pending ep (in_submit ep n w) = out_pending ep w"
    and "out_pending ep (out_submit ep d w) = Suc (out_pending ep w)"
    and "in_pending ep (out_submit ep d w) = in_pending ep w"
  using assms by (simp_all add: bulk_ok_def)

lemma wait_cases:
  assumes "wait_ok this other wait" and "0 < this w"
  obtains w' where "wait w = (Ok None, w')" "this w' = this w" "other w' = other w"
  | c w' where "wait w = (Ok (Some c), w')" "Suc (this w') = this w" "other w' = other w"
      "actual_len c \<le> length (comp_buffer c)"
proof -
  obtain r w' where w: "wait w = (r, w')" by (cases "wait w")
  then have "other w' = other w" and r: "case r of Ok None \<Rightarrow> this w' = this w
      | Ok (Some c) \<Rightarrow> Suc (this w') = this w \<and> actual_len c \<le> length (comp_buffer c) | _ \<Rightarrow> False"
    using assms(1) [unfolded wait_ok_def, rule_format, OF assms(2)] by auto
  with that w show thesis by (auto split: outcome.splits option.splits)
qed

lemma bulk_wait:
  assumes "bulk_ok ep"
  shows "wait_ok (in_pending ep) (out_pending ep) (in_wait ep t)"
    and "wait_ok (out_pending ep) (in_pending ep) (out_wait ep t)"
  using assms unfolding bulk_ok_def by blast+

text \<open>
  A concrete pair of endpoints, for the witnesses: reads complete with the scripted bytes,
  writes complete while \<open>q_out_ready\<close> lasts, the tunnel records what it is given, and a wait
  without a pending transfer panics, as the one of \<open>nusb\<close> does.
\<close>

record io_script =
  q_reads :: nat
  q_done :: "(transfer_status \<times> u8 list) list"
  q_out_pending :: nat
  q_out_ready :: nat
  q_out :: "u8 list list"
  q_tun :: "u8 list list"

definition io_script_start :: "(transfer_status \<times> u8 list) list \<Rightarrow> nat \<Rightarrow> io_script" where
  "io_script_start done ready =
     \<lparr>q_reads = 0, q_done = done, q_out_pending = 0, q_out_ready = ready, q_out = [], q_tun = []\<rparr>"

definition scripted_bulk :: "io_script bulk_endpoints" where
  "scripted_bulk =
     \<lparr>in_pending = q_reads,
      in_submit = (\<lambda>_ w. w\<lparr>q_reads := Suc (q_reads w)\<rparr>),
      in_wait = (\<lambda>_ w.
        if q_reads w = 0 then (Panic, w)
        else case q_done w of
          [] \<Rightarrow> (Ok None, w)
        | (status, bytes) # cs \<Rightarrow>
            (Ok (Some \<lparr>comp_status = status, actual_len = length bytes, comp_buffer = bytes\<rparr>),
             w\<lparr>q_reads := q_reads w - 1, q_done := cs\<rparr>)),
      out_pending = q_out_pending,
      out_submit = (\<lambda>d w. w\<lparr>q_out_pending := Suc (q_out_pending w), q_out := q_out w @ [d]\<rparr>),
      out_wait = (\<lambda>_ w.
        if q_out_pending w = 0 then (Panic, w)
        else if q_out_ready w = 0 then (Ok None, w)
        else (Ok (Some \<lparr>comp_status = Xfer_Ok, actual_len = 0, comp_buffer = []\<rparr>),
              w\<lparr>q_out_pending := q_out_pending w - 1, q_out_ready := q_out_ready w - 1\<rparr>)),
      tun_write = (\<lambda>d w. (Ok (length d), w\<lparr>q_tun := q_tun w @ [d]\<rparr>))\<rparr>"

lemma scripted_bulk_ok: "bulk_ok scripted_bulk"
  by (simp add: bulk_ok_def wait_ok_def scripted_bulk_def split: list.split)

lemma scripted_pending [simp]:
  "in_pending scripted_bulk = q_reads" "out_pending scripted_bulk = q_out_pending"
  by (simp_all add: scripted_bulk_def)

text \<open>A state with a channel of packets, before the thread starts; no others follow.\<close>

definition io_state_start :: "'w \<Rightarrow> u8 list list \<Rightarrow> 'w io_state" where
  "io_state_start w chan =
     \<lparr>io_world = w, tx_receiver = chan, tx_incoming = no_more, tx_sent_count = 0, frame_logged = 0, active_rx = 0,
      io_stats = stats_default, gateway_mac = mac_broadcast, bridge_running = True, device_gone = False\<rparr>"

section \<open>The sending side\<close>

lemma refill_loop_form:
  assumes "bulk_ok ep"
  shows "refill_loop ep chan st =
    (let k = min (length chan) (MAX_OUT_URBS - out_pending ep (io_world st)) in
     (fold (submit_packet ep) (take k chan) st)\<lparr>tx_receiver := drop k chan\<rparr>)"
proof (induction chan arbitrary: st)
  case (Cons pkt chan)
  show ?case
  proof (cases "out_pending ep (io_world st) < MAX_OUT_URBS")
    case True
    let ?p = "out_pending ep (io_world st)"
    have "min (length (pkt # chan)) (MAX_OUT_URBS - ?p) = Suc (min (length chan) (MAX_OUT_URBS - Suc ?p))"
      using True by auto
    then show ?thesis
      using True Cons.IH [of "submit_packet ep pkt st"] assms
      by (simp add: submit_packet_def Let_def)
  qed simp
qed simp

lemma fold_submit_form:
  "fold (submit_packet ep) pkts st = st\<lparr>io_world := fold (out_submit ep) pkts (io_world st),
     tx_sent_count := tx_sent_count st + of_nat (length pkts),
     io_stats := fold count_tx (map length pkts) (io_stats st)\<rparr>"
  by (induction pkts arbitrary: st) (simp_all add: submit_packet_def Let_def)

lemma fold_submit_pending:
  assumes "bulk_ok ep"
  shows "out_pending ep (fold (out_submit ep) pkts w) = out_pending ep w + length pkts"
    and "in_pending ep (fold (out_submit ep) pkts w) = in_pending ep w"
  using assms by (induction pkts arbitrary: w) simp_all

text \<open>
  Claim C22: refilling takes packets from the channel in order, each once, submits them in that order
  and counts them, until thirty-two transfers are pending or the channel is empty; a full endpoint is
  left alone.
\<close>

theorem refill_exact:
  assumes "bulk_ok ep"
  shows "let k = min (length (tx_receiver st)) (MAX_OUT_URBS - out_pending ep (io_world st));
             sent = take k (tx_receiver st); st' = refill_tx ep st in
    io_world st' = fold (out_submit ep) sent (io_world st) \<and>
    sent @ tx_receiver st' = tx_receiver st \<and>
    out_pending ep (io_world st') = out_pending ep (io_world st) + k \<and>
    (tx_receiver st' = [] \<or> MAX_OUT_URBS \<le> out_pending ep (io_world st')) \<and>
    tx_sent_count st' = tx_sent_count st + of_nat k \<and>
    tx_pkts (io_stats st') = tx_pkts (io_stats st) + of_nat k \<and>
    tx_bytes (io_stats st') = tx_bytes (io_stats st) + of_nat (length (concat sent))"
  using assms
  by (auto simp: refill_tx_def refill_loop_form fold_submit_form fold_submit_pending fold_count_tx
      length_concat Let_def min_def)

theorem refill_exact_witness:
  "let st' = refill_tx scripted_bulk (io_state_start (io_script_start [] 0) (replicate 40 [1, 2])) in
   length (tx_receiver st') = 8 \<and> tx_pkts (io_stats st') = 32 \<and> tx_bytes (io_stats st') = 64"
proof -
  have "take 32 (replicate 40 x) = replicate 32 x" for x :: "u8 list" by simp
  moreover have "length (concat (replicate 32 [1, 2 :: u8])) = 64" by (simp add: length_concat sum_list_replicate)
  ultimately show ?thesis
    using refill_exact [OF scripted_bulk_ok,
        of "io_state_start (io_script_start [] 0) (replicate 40 [1, 2])"]
    by (auto simp: io_state_start_def io_script_start_def stats_default_def Let_def
        dest!: arg_cong [where f = length and y = "replicate 40 [1, 2]"])
qed

lemma on_world_run: "on_world m st = (fst (m (io_world st)), st\<lparr>io_world := snd (m (io_world st))\<rparr>)"
  by (simp add: on_world_def split: prod.split)

text \<open>
  What a stretch of sending may change: other threads put packets into the channel, up to the
  \<open>n\<close>-th look, packets move from its head to the endpoint and are counted; everything else of
  the state stays.
\<close>

definition sent_between :: "nat \<Rightarrow> u8 list list \<Rightarrow> 'w io_state \<Rightarrow> 'w io_state \<Rightarrow> bool" where
  "sent_between n sent st st' \<longleftrightarrow>
     sent @ tx_receiver st' = tx_receiver st @ concat (stake n (tx_incoming st)) \<and>
     tx_incoming st' = sdrop n (tx_incoming st) \<and>
     tx_sent_count st' = tx_sent_count st + of_nat (length sent) \<and>
     io_stats st' = fold count_tx (map length sent) (io_stats st) \<and>
     frame_logged st' = frame_logged st \<and> active_rx st' = active_rx st \<and>
     gateway_mac st' = gateway_mac st \<and> bridge_running st' = bridge_running st \<and>
     device_gone st' = device_gone st"




lemma try_recv_cases:
  obtains (none) "tx_receiver (arrivals st) = []" "try_recv st = (None, arrivals st)"
  | (some) pkt chan where "tx_receiver (arrivals st) = pkt # chan"
      "try_recv st = (Some pkt, (arrivals st)\<lparr>tx_receiver := chan\<rparr>)"
  by (cases "tx_receiver (arrivals st)") (auto simp: try_recv_def Let_def)

lemma arrivals_world [simp]:
  "io_world (arrivals st) = io_world st" "arrivals (st\<lparr>io_world := w\<rparr>) = (arrivals st)\<lparr>io_world := w\<rparr>"
  "active_rx (arrivals st) = active_rx st" "bridge_running (arrivals st) = bridge_running st"
  "device_gone (arrivals st) = device_gone st" "gateway_mac (arrivals st) = gateway_mac st"
  by (simp_all add: arrivals_def)




lemma refill_between:
  assumes "bulk_ok ep"
  shows "\<exists>sent. sent_between 0 sent st (refill_tx ep st) \<and>
    in_pending ep (io_world (refill_tx ep st)) = in_pending ep (io_world st) \<and>
    out_pending ep (io_world (refill_tx ep st)) =
      max (out_pending ep (io_world st)) (min MAX_OUT_URBS (out_pending ep (io_world st) + length (tx_receiver st))) \<and>
    (tx_receiver (refill_tx ep st) = [] \<or> MAX_OUT_URBS \<le> out_pending ep (io_world (refill_tx ep st)))"
proof -
  let ?p = "out_pending ep (io_world st)"
  let ?k = "min (length (tx_receiver st)) (MAX_OUT_URBS - ?p)"
  have form: "refill_tx ep st = (fold (submit_packet ep) (take ?k (tx_receiver st)) st)
      \<lparr>tx_receiver := drop ?k (tx_receiver st)\<rparr>"
    using refill_loop_form [OF assms] by (simp add: refill_tx_def Let_def)
  have "?p + ?k = max ?p (min MAX_OUT_URBS (?p + length (tx_receiver st)))"
    and full: "length (tx_receiver st) \<le> ?k \<or> MAX_OUT_URBS \<le> ?p + ?k" by linarith+
  then show ?thesis
    by (intro exI [of _ "take ?k (tx_receiver st)"])
      (use assms full in \<open>simp add: form fold_submit_form fold_submit_pending sent_between_def\<close>)
qed


text \<open>
  The other side: an endpoint that completes whatever is pending at once. While another packet
  arrives before every look, every completion is followed by a submission, and no number of
  rounds of the loop is enough.
\<close>

definition eager_bulk :: "io_script bulk_endpoints" where
  "eager_bulk = scripted_bulk\<lparr>out_wait := (\<lambda>_ w.
     if q_out_pending w = 0 then (Panic, w)
     else (Ok (Some \<lparr>comp_status = Xfer_Ok, actual_len = 0, comp_buffer = []\<rparr>),
           w\<lparr>q_out_pending := q_out_pending w - 1\<rparr>))\<rparr>"

lemma eager_bulk_ok: "bulk_ok eager_bulk"
  by (simp add: bulk_ok_def wait_ok_def eager_bulk_def scripted_bulk_def split: list.split)




section \<open>The receiving side, frame by frame\<close>

text \<open>
  What a frame amounts to: the tunnel packet it carries, the ARP reply it calls for, and the
  gateway address known after it.
\<close>

definition ethertype_of :: "u8 list \<Rightarrow> u16" where
  "ethertype_of frame = u16_from_be (frame ! 12) (frame ! 13)"

definition delivery :: "u8 list \<Rightarrow> u8 list option" where
  "delivery frame =
     (if length frame < 14 \<or> ethertype_of frame = ARP_ETHERTYPE \<or> ETH_BUF_SIZE + 4 < length frame - 10 then None
      else map_option (\<lambda>af. utun_bytes af (drop 14 frame)) (family_for (ethertype_of frame)))"

definition arp_answer :: "mac \<Rightarrow> u32 \<Rightarrow> u8 list \<Rightarrow> u8 list option" where
  "arp_answer host_mac our_ip frame =
     (if asks_for our_ip frame
      then Some (arp_wire (asker_mac frame) host_mac 2 host_mac our_ip (asker_mac frame) (asker_ip frame))
      else None)"

definition gateway_after :: "u8 list \<Rightarrow> mac \<Rightarrow> mac" where
  "gateway_after frame gw =
     (if 14 \<le> length frame \<and> frame ! 6 \<noteq> 0xFF then mac_of_bytes (drop 6 frame) else gw)"

lemma learn_gateway_after:
  assumes "14 \<le> length frame"
  shows "learn_gateway (take 6 (drop 6 frame)) gw = gateway_after frame gw"
proof -
  have "length (take 6 (drop 6 frame)) = 6" using assms by simp
  then have b: "mac_bytes (mac_of_bytes (take 6 (drop 6 frame))) = take 6 (drop 6 frame)"
    by (rule mac_bytes_of_bytes)
  have m: "mac_of_bytes (take 6 (drop 6 frame)) = mac_of_bytes (drop 6 frame)"
    by (simp add: mac_of_bytes_def)
  have "mac_bytes gw = take 6 (drop 6 frame) \<Longrightarrow> gw = mac_of_bytes (drop 6 frame)"
    using b m by (metis mac_bytes_inject)
  then show ?thesis
    using assms by (auto simp: learn_gateway_def gateway_after_def m)
qed

lemma asks_for_ethertype: "asks_for ip frame \<Longrightarrow> 42 \<le> length frame \<and> ethertype_of frame = ARP_ETHERTYPE"
  using take_drop_2 [of 12 frame]
  by (auto simp: asks_for_def ethertype_of_def u16_from_be_def)

lemma utun_bytes_not_Nil [simp]: "utun_bytes af ip \<noteq> []"
  by (simp add: utun_bytes_def u32_to_be_bytes_def)

lemma eth_to_utun_delivery:
  assumes "14 \<le> length frame" and "ethertype_of frame \<noteq> ARP_ETHERTYPE" and "length ub = ETH_BUF_SIZE + 4"
  shows "\<exists>ub'. length ub' = ETH_BUF_SIZE + 4 \<and> eth_to_utun frame ub =
    (case delivery frame of None \<Rightarrow> Ok (0, ub') | Some pkt \<Rightarrow> Ok (length pkt, pkt @ drop (length pkt) ub')) \<and>
    (delivery frame = None \<longrightarrow> ub' = ub) \<and> (\<forall>pkt. delivery frame = Some pkt \<longrightarrow> 0 < length pkt \<and> length pkt \<le> length ub')"
proof -
  obtain dst src t p where f: "frame = eth_frame_bytes dst src t p"
    using assms(1) by (rule eth_cases)
  have t: "ethertype_of frame = t"
    by (simp add: f ethertype_of_def eth_frame_bytes_def nth_append u16_to_be_bytes_def)
  have d: "drop 14 frame = p" by (simp add: f)
  have l: "length frame = 14 + length p" by (simp add: f)
  show ?thesis
    using assms(2,3) unfolding delivery_def t d l
    by (intro exI [of _ ub]) (auto simp: f eth_to_utun_form Let_def split: option.splits)
qed

text \<open>One call of the handler.\<close>

definition frame_state :: "u8 list \<Rightarrow> 'w io_state \<Rightarrow> 'w io_state" where
  "frame_state frame st = (log_frame st)\<lparr>gateway_mac := gateway_after frame (gateway_mac st)\<rparr>"

lemma log_frame_other [simp]:
  "io_world (log_frame st) = io_world st" "tx_receiver (log_frame st) = tx_receiver st"
  "tx_incoming (log_frame st) = tx_incoming st"
  "tx_sent_count (log_frame st) = tx_sent_count st" "active_rx (log_frame st) = active_rx st"
  "io_stats (log_frame st) = io_stats st" "gateway_mac (log_frame st) = gateway_mac st"
  "bridge_running (log_frame st) = bridge_running st" "device_gone (log_frame st) = device_gone st"
  by (simp_all add: log_frame_def)

lemma on_frame_short: "length frame < 14 \<Longrightarrow> on_frame ep host_mac our_ip frame rx = Ok rx"
  by (simp add: on_frame_def)

lemma on_frame_long:
  assumes "14 \<le> length frame"
  shows "on_frame ep host_mac our_ip frame rx =
    (let st = frame_state frame (rx_io rx) in
     if ethertype_of frame = ARP_ETHERTYPE then
       Ok (rx\<lparr>rx_io := st, arp_replies := arp_replies rx @
         (case arp_answer host_mac our_ip frame of None \<Rightarrow> [] | Some r \<Rightarrow> [r])\<rparr>)
     else
       (case eth_to_utun frame (utun_buf rx) of
          Ok (utun_len, ub) \<Rightarrow>
            if utun_len = 0 then Ok (rx\<lparr>rx_io := st, utun_buf := ub\<rparr>)
            else
              and_then (subslice_to ub utun_len) (\<lambda>pkt.
              case on_world (tun_write ep pkt) st of (r, st) \<Rightarrow>
                and_then (if r = Panic then Panic else if r = Undefined then Undefined else Ok ())
                  (\<lambda>_. Ok (rx\<lparr>rx_io := st\<lparr>io_stats := count_rx (length frame) (io_stats st)\<rparr>,
                              utun_buf := ub\<rparr>)))
        | Err _ \<Rightarrow> Ok (rx\<lparr>rx_io := st\<rparr>) | Panic \<Rightarrow> Panic | Undefined \<Rightarrow> Undefined))"
proof -
  have fs: "(log_frame st)\<lparr>gateway_mac := learn_gateway (take 6 (drop 6 frame)) (gateway_mac st)\<rparr> =
      frame_state frame st" for st :: "'w io_state"
    by (simp add: frame_state_def learn_gateway_after [OF assms])
  show ?thesis
    using assms handle_request_form [of frame "replicate ETH_BUF_SIZE 0" host_mac our_ip]
    unfolding on_frame_def Let_def
    by (cases "eth_to_utun frame (utun_buf rx)")
      (auto simp: fs arp_answer_def simp flip: ethertype_of_def)
qed

lemma on_frame_other:
  assumes "14 \<le> length frame" and "ethertype_of frame \<noteq> ARP_ETHERTYPE"
    and "length (utun_buf rx) = ETH_BUF_SIZE + 4"
    and "\<And>d w. no_fault (fst (tun_write ep d w))"
  shows "\<exists>ub'. length ub' = ETH_BUF_SIZE + 4 \<and> on_frame ep host_mac our_ip frame rx = Ok
    (rx\<lparr>utun_buf := ub', rx_io :=
      (case delivery frame of None \<Rightarrow> frame_state frame (rx_io rx)
       | Some pkt \<Rightarrow> (frame_state frame (rx_io rx))\<lparr>io_world := snd (tun_write ep pkt (io_world (rx_io rx))),
           io_stats := count_rx (length frame) (io_stats (rx_io rx))\<rparr>)\<rparr>)"
proof -
  let ?st = "frame_state frame (rx_io rx)"
  have w: "io_world ?st = io_world (rx_io rx)" "io_stats ?st = io_stats (rx_io rx)"
    by (simp_all add: frame_state_def)
  obtain ub' where ub': "length ub' = ETH_BUF_SIZE + 4" and e: "eth_to_utun frame (utun_buf rx) =
      (case delivery frame of None \<Rightarrow> Ok (0, ub') | Some pkt \<Rightarrow> Ok (length pkt, pkt @ drop (length pkt) ub'))"
    and n: "delivery frame = None \<longrightarrow> ub' = utun_buf rx"
    and s: "\<forall>pkt. delivery frame = Some pkt \<longrightarrow> 0 < length pkt \<and> length pkt \<le> length ub'"
    using eth_to_utun_delivery [OF assms(1-3)] by (elim exE conjE) (rule that)
  have nf: "fst (tun_write ep d w) \<noteq> Panic" "fst (tun_write ep d w) \<noteq> Undefined" for d w
    using assms(4) [of d w] by (auto simp: no_fault_iff)
  show ?thesis
  proof (cases "delivery frame")
    case None
    then show ?thesis
      using assms(1,2) e n ub'
      by (intro exI [of _ ub']) (simp add: on_frame_long)
  next
    case (Some pkt)
    with s have pkt: "0 < length pkt" "length pkt \<le> ETH_BUF_SIZE + 4" using ub' by simp_all
    have e: "eth_to_utun frame (utun_buf rx) = Ok (length pkt, pkt @ drop (length pkt) ub')"
      using e Some by simp
    show ?thesis
      using assms(1,2) pkt ub' nf w unfolding Some option.case
      by (intro exI [of _ "pkt @ drop (length pkt) ub'"])
        (simp add: on_frame_long on_world_run e)
  qed
qed

section \<open>The receiving side, transfer by transfer\<close>

lemma fold_outcome_keeps:
  assumes "\<And>x s. P s \<Longrightarrow> \<exists>s'. f x s = Ok s' \<and> P s'" and "P s"
  shows "\<exists>s'. fold_outcome f xs s = Ok s' \<and> P s'"
  using assms(2)
proof (induction xs arbitrary: s)
  case (Cons x xs)
  from assms(1) [OF Cons.prems, of x] obtain s1 where "f x s = Ok s1" "P s1" by blast
  with Cons.IH show ?case by simp
qed simp

text \<open>A gateway address is the broadcast address until a unicast source is seen.\<close>

definition gateway_ok :: "mac \<Rightarrow> bool" where
  "gateway_ok gw \<longleftrightarrow> gw = mac_broadcast \<or> hd (mac_bytes gw) \<noteq> 0xFF"

lemma gateway_after_ok: "gateway_ok gw \<Longrightarrow> gateway_ok (gateway_after frame gw)"
  by (auto simp: gateway_ok_def gateway_after_def mac_of_bytes_def)

text \<open>What receiving leaves alone: the counts of transfers, the channel, the flags.\<close>

definition same_control :: "'w bulk_endpoints \<Rightarrow> 'w io_state \<Rightarrow> 'w io_state \<Rightarrow> bool" where
  "same_control ep st st' \<longleftrightarrow>
     in_pending ep (io_world st') = in_pending ep (io_world st) \<and>
     out_pending ep (io_world st) \<le> out_pending ep (io_world st') \<and>
     tx_receiver st' = tx_receiver st \<and> tx_incoming st' = tx_incoming st \<and> active_rx st' = active_rx st \<and>
     bridge_running st' = bridge_running st \<and> device_gone st' = device_gone st \<and>
     (gateway_ok (gateway_mac st) \<longrightarrow> gateway_ok (gateway_mac st'))"

lemma same_control_refl [simp]: "same_control ep st st"
  by (simp add: same_control_def)

lemma same_control_trans:
  "same_control ep st st1 \<Longrightarrow> same_control ep st1 st2 \<Longrightarrow> same_control ep st st2"
  by (auto simp: same_control_def)

lemma same_control_frame: "same_control ep st (frame_state frame st)"
  by (simp add: same_control_def frame_state_def gateway_after_ok)

lemma bulk_tun:
  assumes "bulk_ok ep"
  shows "no_fault (fst (tun_write ep d w))" "in_pending ep (snd (tun_write ep d w)) = in_pending ep w"
    "out_pending ep (snd (tun_write ep d w)) = out_pending ep w"
  using assms unfolding bulk_ok_def by blast+

lemma on_frame_keeps:
  assumes "bulk_ok ep" and "length (utun_buf rx) = ETH_BUF_SIZE + 4"
  shows "\<exists>rx'. on_frame ep host_mac our_ip frame rx = Ok rx' \<and> same_control ep (rx_io rx) (rx_io rx') \<and>
    length (utun_buf rx') = ETH_BUF_SIZE + 4"
proof -
  consider "length frame < 14" | "14 \<le> length frame" "ethertype_of frame = ARP_ETHERTYPE"
    | "14 \<le> length frame" "ethertype_of frame \<noteq> ARP_ETHERTYPE" by linarith
  then show ?thesis
  proof cases
    case 1
    then show ?thesis using assms(2) by (simp add: on_frame_short)
  next
    case 2
    then show ?thesis using assms(2) by (simp add: on_frame_long same_control_frame Let_def)
  next
    case 3
    let ?st = "frame_state frame (rx_io rx)"
    have "same_control ep (rx_io rx) (?st\<lparr>io_world := snd (tun_write ep pkt (io_world (rx_io rx))), io_stats := c\<rparr>)"
      for pkt c
      using same_control_frame [of ep "rx_io rx" frame] bulk_tun [OF assms(1)]
      by (simp add: same_control_def frame_state_def)
    with on_frame_other [OF 3 assms(2) bulk_tun(1) [OF assms(1)], of host_mac our_ip] assms(2)
      same_control_frame [of ep "rx_io rx" frame]
    show ?thesis by (auto split: option.splits)
  qed
qed

lemma unwrap_keeps:
  assumes "bulk_ok ep"
  shows "\<exists>rx. unwrap_data data (on_frame ep host_mac our_ip)
      \<lparr>rx_io = st, arp_replies = [], utun_buf = replicate (ETH_BUF_SIZE + 4) 0\<rparr> = Ok rx \<and>
    same_control ep st (rx_io rx)"
proof -
  let ?P = "\<lambda>rx. same_control ep st (rx_io rx) \<and> length (utun_buf rx) = ETH_BUF_SIZE + 4"
  have "\<exists>rx'. on_frame ep host_mac our_ip frame rx = Ok rx' \<and> ?P rx'" if "?P rx" for frame rx
    using on_frame_keeps [OF assms, of rx host_mac our_ip frame] that same_control_trans by blast
  from fold_outcome_keeps [of ?P "on_frame ep host_mac our_ip"
      "\<lparr>rx_io = st, arp_replies = [], utun_buf = replicate (ETH_BUF_SIZE + 4) 0\<rparr>" "rndis_frame_list data", OF this]
  show ?thesis by (auto simp: rndis_drv.unwrap_frames)
qed

text \<open>Replies are submitted whole; one that no transfer holds is dropped.\<close>

lemma send_replies_form:
  "send_replies ep replies st =
    (Ok (), st\<lparr>io_world := fold (\<lambda>r. out_submit ep (data_message r))
       (filter (\<lambda>r. 44 + length r \<le> RNDIS_BUF_SIZE) replies) (io_world st)\<rparr>)"
proof (induction replies arbitrary: st)
  case (Cons r rs)
  show ?case
  proof (cases "44 + length r \<le> RNDIS_BUF_SIZE")
    case True
    then have "wrap_frame r (replicate RNDIS_BUF_SIZE 0) =
        Ok (44 + length r, data_message r @ replicate (RNDIS_BUF_SIZE - (44 + length r)) 0)"
      by (simp add: rndis_drv.wrap_fits)
    moreover have "subslice_to (data_message r @ z) (44 + length r) = Ok (data_message r)" for z
      by simp
    ultimately show ?thesis
      using True Cons.IH by (simp add: io_run modify_def io_then_def io_lift_def del: RNDIS_BUF_SIZE_def)
  next
    case False
    then have "wrap_frame r (replicate RNDIS_BUF_SIZE 0) = Err (BufferTooSmall (44 + length r) RNDIS_BUF_SIZE)"
      using rndis_drv.wrap_refused [of "replicate RNDIS_BUF_SIZE 0" r] by simp
    then show ?thesis using False Cons.IH by simp
  qed
qed simp

lemma fold_replies_pending:
  assumes "bulk_ok ep"
  shows "in_pending ep (fold (\<lambda>r. out_submit ep (data_message r)) rs w) = in_pending ep w"
    and "out_pending ep (fold (\<lambda>r. out_submit ep (data_message r)) rs w) = out_pending ep w + length rs"
  using assms by (induction rs arbitrary: w) simp_all

lemma same_control_replies:
  "bulk_ok ep \<Longrightarrow> same_control ep st
     (st\<lparr>io_world := fold (\<lambda>r. out_submit ep (data_message r)) rs (io_world st)\<rparr>)"
  by (simp add: same_control_def fold_replies_pending)

lemma resubmit_ok:
  assumes "bulk_ok ep"
  shows "resubmit ep n st = (Ok True, st\<lparr>io_world := in_submit ep n (io_world st)\<rparr>)"
  using assms by (simp add: resubmit_def Let_def)

text \<open>One completion: a failed one is lost, any other puts one read back.\<close>

lemma process_rx_ok:
  assumes "bulk_ok ep" and "actual_len c \<le> length (comp_buffer c)"
  shows "\<exists>st1. same_control ep st st1 \<and> process_rx_completion ep host_mac our_ip c st =
    (if comp_status c = Xfer_Ok
     then (Ok True, st1\<lparr>io_world := in_submit ep RNDIS_BUF_SIZE (io_world st1)\<rparr>)
     else (Ok False, st))"
proof (cases "comp_status c = Xfer_Ok \<and> actual_len c \<noteq> 0")
  case True
  let ?data = "take (actual_len c) (comp_buffer c)"
  obtain rx where rx: "unwrap_data ?data (on_frame ep host_mac our_ip)
      \<lparr>rx_io = st, arp_replies = [], utun_buf = replicate (ETH_BUF_SIZE + 4) 0\<rparr> = Ok rx"
    "same_control ep st (rx_io rx)"
    using unwrap_keeps [OF assms(1)] by blast
  let ?st1 = "(rx_io rx)\<lparr>io_world := fold (\<lambda>r. out_submit ep (data_message r))
      (filter (\<lambda>r. 44 + length r \<le> RNDIS_BUF_SIZE) (arp_replies rx)) (io_world (rx_io rx))\<rparr>"
  have "process_rx_completion ep host_mac our_ip c st =
      (Ok True, ?st1\<lparr>io_world := in_submit ep RNDIS_BUF_SIZE (io_world ?st1)\<rparr>)"
    using True assms rx(1)
    by (simp add: process_rx_completion_def Let_def io_then_def io_lift_def send_replies_form
        resubmit_ok del: RNDIS_BUF_SIZE_def ETH_BUF_SIZE_def)
  moreover have "same_control ep st ?st1"
    by (rule same_control_trans [OF rx(2) same_control_replies [OF assms(1)]])
  ultimately show ?thesis using True by (intro exI [of _ ?st1]) simp
next
  case False
  then show ?thesis
    using assms by (intro exI [of _ st]) (auto simp: process_rx_completion_def resubmit_ok)
qed

section \<open>The loop: reads in flight\<close>

text \<open>Every read that is not lost is pending: the code's counter counts the endpoint's queue.\<close>

definition reads_counted :: "'w bulk_endpoints \<Rightarrow> 'w io_state \<Rightarrow> bool" where
  "reads_counted ep st \<longleftrightarrow> in_pending ep (io_world st) = unat (active_rx st)"

text \<open>What a stretch of receiving may do: lose reads, and what \<open>same_control\<close> allows.\<close>

definition receiving :: "'w bulk_endpoints \<Rightarrow> 'w io_state \<Rightarrow> 'w io_state \<Rightarrow> bool" where
  "receiving ep st st' \<longleftrightarrow>
     reads_counted ep st' \<and> active_rx st' \<le> active_rx st \<and> tx_receiver st' = tx_receiver st \<and>
     bridge_running st' = bridge_running st \<and> device_gone st' = device_gone st \<and>
     (gateway_ok (gateway_mac st) \<longrightarrow> gateway_ok (gateway_mac st'))"

lemma receiving_trans: "receiving ep st st1 \<Longrightarrow> receiving ep st1 st2 \<Longrightarrow> receiving ep st st2"
  by (auto simp: receiving_def)

lemma receiving_refl: "reads_counted ep st \<Longrightarrow> receiving ep st st"
  by (simp add: receiving_def)

lemma handle_rx_ok:
  assumes "bulk_ok ep" and "actual_len c \<le> length (comp_buffer c)"
    and "Suc (in_pending ep (io_world st)) = unat (active_rx st)"
  shows "\<exists>st'. handle_rx ep host_mac our_ip c st = (Ok (), st') \<and> receiving ep st st'"
proof -
  obtain st1 where sc: "same_control ep st st1" and p: "process_rx_completion ep host_mac our_ip c st =
    (if comp_status c = Xfer_Ok
     then (Ok True, st1\<lparr>io_world := in_submit ep RNDIS_BUF_SIZE (io_world st1)\<rparr>)
     else (Ok False, st))"
    using process_rx_ok [OF assms(1,2)] by blast
  have a: "active_rx st \<noteq> 0" using assms(3) by auto
  then have "unat (active_rx st - 1) = in_pending ep (io_world st)" "active_rx st - 1 \<le> active_rx st"
    using assms(3) by (simp_all add: unat_minus_one word_le_nat_alt)
  then show ?thesis
    using assms a sc p
    by (auto simp: handle_rx_def io_then_def modify_def account_rx_def receiving_def reads_counted_def
        same_control_def)
qed

lemma rx_ready_ok:
  assumes "bulk_ok ep" and "reads_counted ep st"
  shows "\<exists>r st'. rx_ready ep host_mac our_ip fuel st = (Ok r, st') \<and> receiving ep st st'"
  using assms(2)
proof (induction fuel arbitrary: st)
  case 0
  then show ?case by (simp add: receiving_refl)
next
  case (Suc fuel)
  show ?case
  proof (cases "0 < in_pending ep (io_world st)")
    case False
    then show ?thesis using Suc.prems by (simp add: receiving_refl)
  next
    case True
    from bulk_wait(1) [OF assms(1)] True show ?thesis
    proof (cases rule: wait_cases [of _ _ "in_wait ep 0"])
      case (1 w')
      then show ?thesis
        using True Suc.prems by (simp add: io_then_def on_world_run io_lift_def receiving_def reads_counted_def)
    next
      case (2 c w')
      let ?st = "st\<lparr>io_world := w'\<rparr>"
      obtain st1 where h: "handle_rx ep host_mac our_ip c ?st = (Ok (), st1)" "receiving ep ?st st1"
        using handle_rx_ok [OF assms(1) 2(4), of ?st] 2 Suc.prems by (auto simp: reads_counted_def)
      then have "reads_counted ep st1" by (simp add: receiving_def)
      from Suc.IH [OF this] obtain r st2 where
        "rx_ready ep host_mac our_ip fuel st1 = (Ok r, st2)" "receiving ep st1 st2" by blast
      moreover have "receiving ep st st1" using h(2) by (simp add: receiving_def)
      ultimately show ?thesis
        using True 2 h(1) receiving_trans by (auto simp: io_then_def on_world_run)
    qed
  qed
qed

lemma drain_out_reads:
  assumes "bulk_ok ep"
  shows "\<exists>r st'. drain_out ep fuel st = (Ok r, st') \<and>
    in_pending ep (io_world st') = in_pending ep (io_world st) \<and> active_rx st' = active_rx st \<and>
    bridge_running st' = bridge_running st \<and> device_gone st' = device_gone st \<and>
    gateway_mac st' = gateway_mac st"
proof (induction fuel arbitrary: st)
  case (Suc fuel)
  show ?case
  proof (cases "0 < out_pending ep (io_world st)")
    case True
    from bulk_wait(2) [OF assms(1)] True show ?thesis
    proof (cases rule: wait_cases [of _ _ "out_wait ep 0"])
      case (1 w')
      then show ?thesis using True by (simp add: io_then_def on_world_run)
    next
      case (2 c w')
      let ?st = "st\<lparr>io_world := w'\<rparr>"
      show ?thesis
      proof (cases rule: try_recv_cases [of ?st])
        case none
        then show ?thesis
          using True 2 Suc.IH [of "arrivals ?st"] by (auto simp: io_then_def on_world_run)
      next
        case (some pkt chan)
        then show ?thesis
          using True 2 assms Suc.IH [of "submit_packet ep pkt ((arrivals ?st)\<lparr>tx_receiver := chan\<rparr>)"]
          by (auto simp: io_then_def on_world_run submit_packet_def Let_def)
      qed
    qed
  qed simp
qed simp

lemma drain_and_refill_reads:
  assumes "bulk_ok ep"
  shows "\<exists>r st'. drain_out_and_refill ep fuel st = (Ok r, st') \<and>
    in_pending ep (io_world st') = in_pending ep (io_world st) \<and> active_rx st' = active_rx st \<and>
    bridge_running st' = bridge_running st \<and> device_gone st' = device_gone st \<and>
    gateway_mac st' = gateway_mac st"
proof -
  obtain r st1 where d: "drain_out ep fuel st = (Ok r, st1)"
    "in_pending ep (io_world st1) = in_pending ep (io_world st)" "active_rx st1 = active_rx st"
    "bridge_running st1 = bridge_running st" "device_gone st1 = device_gone st"
    "gateway_mac st1 = gateway_mac st"
    using drain_out_reads [OF assms] by blast
  from refill_between [OF assms, of "arrivals st1"] d show ?thesis
    by (cases r) (auto simp: drain_out_and_refill_def io_then_def io_lift_def modify_def sent_between_def)
qed

lemma io_round_ok:
  assumes "bulk_ok ep" and "reads_counted ep st" and "0 < active_rx st"
  shows "\<exists>r st'. io_round ep host_mac our_ip fuel st = (Ok r, st') \<and>
    reads_counted ep st' \<and> active_rx st' \<le> active_rx st \<and>
    (gateway_ok (gateway_mac st) \<longrightarrow> gateway_ok (gateway_mac st')) \<and>
    (r = Some True \<longrightarrow> 0 < active_rx st' \<and> bridge_running st' = bridge_running st \<and> device_gone st' = device_gone st) \<and>
    (r = Some False \<longrightarrow> active_rx st' = 0 \<and> \<not> bridge_running st' \<and> device_gone st')"
proof -
  define body where "body = (\<lambda>r st. case r of None \<Rightarrow> (Ok None, st)
    | Some (_ :: unit) \<Rightarrow>
      if active_rx st = 0
      then (Ok (Some False), st\<lparr>device_gone := True, bridge_running := False\<rparr>)
      else io_then (drain_out_and_refill ep fuel) (\<lambda>r. io_lift (Ok (map_option (\<lambda>_. True) r))) st)"
  have rest: "\<exists>r' st'. body r st1 = (Ok r', st') \<and> reads_counted ep st' \<and> active_rx st' \<le> active_rx st \<and>
      (gateway_ok (gateway_mac st) \<longrightarrow> gateway_ok (gateway_mac st')) \<and>
      (r' = Some True \<longrightarrow> 0 < active_rx st' \<and> bridge_running st' = bridge_running st \<and> device_gone st' = device_gone st) \<and>
      (r' = Some False \<longrightarrow> active_rx st' = 0 \<and> \<not> bridge_running st' \<and> device_gone st')"
    if "receiving ep st st1" for r st1
  proof (cases r)
    case (Some u)
    obtain r' st2 where d: "drain_out_and_refill ep fuel st1 = (Ok r', st2)"
      "in_pending ep (io_world st2) = in_pending ep (io_world st1)" "active_rx st2 = active_rx st1"
      "bridge_running st2 = bridge_running st1" "device_gone st2 = device_gone st1"
      "gateway_mac st2 = gateway_mac st1"
      using drain_and_refill_reads [OF assms(1)] by blast
    with that Some show ?thesis
      by (auto simp: body_def io_then_def io_lift_def receiving_def reads_counted_def word_neq_0_conv)
  qed (use that in \<open>simp add: body_def receiving_def\<close>)
  have pos: "0 < in_pending ep (io_world st)"
    using assms(2,3) by (simp add: reads_counted_def word_less_nat_alt)
  have rnd: "io_round ep host_mac our_ip fuel st =
      io_then (on_world (in_wait ep 1)) (\<lambda>c. io_then
       (case c of
          Some cpl \<Rightarrow> io_then (handle_rx ep host_mac our_ip cpl) (\<lambda>_. rx_ready ep host_mac our_ip fuel)
        | None \<Rightarrow> io_lift (Ok (Some ()))) body) st"
    unfolding io_round_def body_def by simp
  from bulk_wait(1) [OF assms(1)] pos show ?thesis
  proof (cases rule: wait_cases [of _ _ "in_wait ep 1"])
    case (1 w')
    let ?st = "st\<lparr>io_world := w'\<rparr>"
    have "receiving ep st ?st" using assms(2) 1 by (simp add: receiving_def reads_counted_def)
    from rest [OF this, of "Some ()"] show ?thesis
      using 1 by (simp add: rnd io_then_def on_world_run io_lift_def)
  next
    case (2 c w')
    let ?st = "st\<lparr>io_world := w'\<rparr>"
    obtain st1 where h: "handle_rx ep host_mac our_ip c ?st = (Ok (), st1)" "receiving ep ?st st1"
      using handle_rx_ok [OF assms(1) 2(4), of ?st] 2 assms(2) by (auto simp: reads_counted_def)
    then have "reads_counted ep st1" by (simp add: receiving_def)
    from rx_ready_ok [OF assms(1) this] obtain r st2 where
      r: "rx_ready ep host_mac our_ip fuel st1 = (Ok r, st2)" "receiving ep st1 st2" by blast
    have "receiving ep st st2"
      using receiving_trans [OF h(2) r(2)] by (simp add: receiving_def)
    from rest [OF this, of r] show ?thesis
      using 2 h(1) r(1) by (simp add: rnd io_then_def on_world_run)
  qed
qed

end
