(* ===== verification/Io_Loop.thy ===== *)
theory Io_Loop
  imports Usb_Io
begin

text \<open>
  The I/O thread of \<^verbatim>\<open>src/usb_io.rs\<close> as a whole: what one transfer does to the tunnel, to
  the OUT endpoint and to the gateway's address, what holds at every state the thread and its
  environment reach, and that losing the device ends the thread.
\<close>

section \<open>What a transfer amounts to\<close>

definition tun_all :: "'w bulk_endpoints \<Rightarrow> u8 list list \<Rightarrow> 'w \<Rightarrow> 'w" where
  "tun_all ep = fold (\<lambda>d w. snd (tun_write ep d w))"

definition reply_all :: "'w bulk_endpoints \<Rightarrow> u8 list list \<Rightarrow> 'w \<Rightarrow> 'w" where
  "reply_all ep = fold (\<lambda>r. out_submit ep (data_message r))"

text \<open>The frames of a transfer that reach the tunnel.\<close>

definition delivered :: "u8 list list \<Rightarrow> u8 list list" where
  "delivered = filter (\<lambda>f. delivery f \<noteq> None)"

definition frames_done ::
  "'w bulk_endpoints \<Rightarrow> mac \<Rightarrow> u32 \<Rightarrow> u8 list list \<Rightarrow> 'w rx_state \<Rightarrow> 'w rx_state \<Rightarrow> bool" where
  "frames_done ep host_mac our_ip fs rx rx' \<longleftrightarrow>
     io_world (rx_io rx') = tun_all ep (List.map_filter delivery fs) (io_world (rx_io rx)) \<and>
     arp_replies rx' = arp_replies rx @ List.map_filter (arp_answer host_mac our_ip) fs \<and>
     gateway_mac (rx_io rx') = fold gateway_after fs (gateway_mac (rx_io rx)) \<and>
     io_stats (rx_io rx') = fold count_rx (map length (delivered fs)) (io_stats (rx_io rx)) \<and>
     tx_receiver (rx_io rx') = tx_receiver (rx_io rx) \<and>
     tx_incoming (rx_io rx') = tx_incoming (rx_io rx) \<and> active_rx (rx_io rx') = active_rx (rx_io rx) \<and>
     tx_sent_count (rx_io rx') = tx_sent_count (rx_io rx) \<and>
     bridge_running (rx_io rx') = bridge_running (rx_io rx) \<and> device_gone (rx_io rx') = device_gone (rx_io rx)"

lemma frames_done_Nil: "frames_done ep host_mac our_ip [] rx rx"
  by (simp add: frames_done_def tun_all_def delivered_def map_filter_simps)

lemma frames_done_trans:
  "frames_done ep host_mac our_ip fs rx rx1 \<Longrightarrow> frames_done ep host_mac our_ip gs rx1 rx2 \<Longrightarrow>
   frames_done ep host_mac our_ip (fs @ gs) rx rx2"
  by (simp add: frames_done_def tun_all_def delivered_def map_filter_def)

lemma on_frame_done:
  assumes "\<And>d w. no_fault (fst (tun_write ep d w))" and "length (utun_buf rx) = ETH_BUF_SIZE + 4"
  shows "\<exists>rx'. on_frame ep host_mac our_ip frame rx = Ok rx' \<and>
    frames_done ep host_mac our_ip [frame] rx rx' \<and> length (utun_buf rx') = ETH_BUF_SIZE + 4"
proof -
  consider (short) "length frame < 14" | (arp) "14 \<le> length frame" "ethertype_of frame = ARP_ETHERTYPE"
    | (ip) "14 \<le> length frame" "ethertype_of frame \<noteq> ARP_ETHERTYPE" by linarith
  then show ?thesis
  proof cases
    case short
    then have "arp_answer host_mac our_ip frame = None" "delivery frame = None"
      "gateway_after frame gw = gw" for gw
      using asks_for_ethertype [of our_ip frame]
      by (auto simp: arp_answer_def delivery_def gateway_after_def)
    with short assms(2) show ?thesis
      by (simp add: on_frame_short frames_done_def tun_all_def delivered_def map_filter_simps)
  next
    case arp
    then have "delivery frame = None" by (simp add: delivery_def)
    with arp assms(2) show ?thesis
      by (auto simp: on_frame_long frames_done_def frame_state_def tun_all_def delivered_def
          map_filter_simps Let_def split: option.split)
  next
    case ip
    then have "arp_answer host_mac our_ip frame = None"
      using asks_for_ethertype [of our_ip frame] by (auto simp: arp_answer_def)
    with on_frame_other [OF ip assms(2,1), of host_mac our_ip] show ?thesis
      by (auto simp: frames_done_def frame_state_def tun_all_def delivered_def map_filter_simps
          split: option.splits)
  qed
qed

lemma fold_frames_done:
  assumes "\<And>d w. no_fault (fst (tun_write ep d w))" and "length (utun_buf rx) = ETH_BUF_SIZE + 4"
  shows "\<exists>rx'. fold_outcome (on_frame ep host_mac our_ip) fs rx = Ok rx' \<and>
    frames_done ep host_mac our_ip fs rx rx'"
  using assms(2)
proof (induction fs arbitrary: rx)
  case (Cons f fs)
  from on_frame_done [OF assms(1) Cons.prems] obtain rx1 where
    1: "on_frame ep host_mac our_ip f rx = Ok rx1" "frames_done ep host_mac our_ip [f] rx rx1"
    "length (utun_buf rx1) = ETH_BUF_SIZE + 4" by blast
  from Cons.IH [OF 1(3)] 1(1) frames_done_trans [OF 1(2)] show ?case by auto
qed (simp add: frames_done_Nil)

lemma arp_answers_fit:
  "r \<in> set (List.map_filter (arp_answer host_mac our_ip) fs) \<Longrightarrow> 44 + length r \<le> RNDIS_BUF_SIZE"
  by (auto simp: map_filter_def arp_answer_def split: if_splits)

lemma rx_effect:
  assumes "bulk_ok ep" and "comp_status c = Xfer_Ok"
    and "0 < actual_len c" and "actual_len c \<le> length (comp_buffer c)"
  shows "let fs = rndis_frame_list (take (actual_len c) (comp_buffer c)) in
    \<exists>n. process_rx_completion ep host_mac our_ip c st = (Ok True,
      st\<lparr>io_world := in_submit ep RNDIS_BUF_SIZE (reply_all ep (List.map_filter (arp_answer host_mac our_ip) fs)
           (tun_all ep (List.map_filter delivery fs) (io_world st))),
         frame_logged := n,
         gateway_mac := fold gateway_after fs (gateway_mac st),
         io_stats := fold count_rx (map length (delivered fs)) (io_stats st)\<rparr>)"
proof -
  let ?data = "take (actual_len c) (comp_buffer c)"
  let ?rx0 = "\<lparr>rx_io = st, arp_replies = [], utun_buf = replicate (ETH_BUF_SIZE + 4) 0\<rparr>"
  obtain rx where rx: "unwrap_data ?data (on_frame ep host_mac our_ip) ?rx0 = Ok rx"
    and d: "frames_done ep host_mac our_ip (rndis_frame_list ?data) ?rx0 rx"
    using fold_frames_done [OF bulk_tun(1) [OF assms(1)], of ?rx0 host_mac our_ip "rndis_frame_list ?data"]
    by (auto simp: rndis_drv.unwrap_frames)
  let ?w = "reply_all ep (List.map_filter (arp_answer host_mac our_ip) (rndis_frame_list ?data))
    (tun_all ep (List.map_filter delivery (rndis_frame_list ?data)) (io_world st))"
  have "filter (\<lambda>r. 44 + length r \<le> RNDIS_BUF_SIZE) (arp_replies rx) = arp_replies rx"
    using d arp_answers_fit by (auto simp: frames_done_def filter_id_conv)
  then have "send_replies ep (arp_replies rx) (rx_io rx) = (Ok (), (rx_io rx)\<lparr>io_world := ?w\<rparr>)"
    using d by (simp add: send_replies_form frames_done_def reply_all_def)
  then have "process_rx_completion ep host_mac our_ip c st =
      (Ok True, (rx_io rx)\<lparr>io_world := in_submit ep RNDIS_BUF_SIZE ?w\<rparr>)"
    using assms rx
    by (simp add: process_rx_completion_def Let_def io_then_def io_lift_def resubmit_ok
        del: RNDIS_BUF_SIZE_def ETH_BUF_SIZE_def)
  with d show ?thesis
    unfolding Let_def by (intro exI [of _ "frame_logged (rx_io rx)"]) (simp add: frames_done_def)
qed

text \<open>
  The stations a transfer shows: the sources that do not begin with 255. The gateway's address
  afterwards is the last of them.
\<close>

definition stations :: "u8 list list \<Rightarrow> mac list" where
  "stations fs = map (\<lambda>f. mac_of_bytes (drop 6 f)) (filter (\<lambda>f. 14 \<le> length f \<and> f ! 6 \<noteq> 0xFF) fs)"

lemma stations_simps [simp]:
  "stations [] = []"
  "stations (f # fs) =
     (if 14 \<le> length f \<and> f ! 6 \<noteq> 0xFF then mac_of_bytes (drop 6 f) # stations fs else stations fs)"
  by (simp_all add: stations_def)

lemma gateway_after_last: "fold gateway_after fs gw = last (gw # stations fs)"
  by (induction fs arbitrary: gw) (auto simp: gateway_after_def)

text \<open>
  Claim C2: what a read transfer does. A completed transfer with data writes the packets of its frames
  to the tunnel in order, then answers its ARP requests for this host with one transfer each, then puts
  the buffer back; the counters grow by the frames delivered, and nothing else changes but the log
  counter and the gateway's address. That address is taken from every frame whose source does not begin
  with 255, so it ends as the source of the last one, and any station's frame replaces what an earlier
  one taught. This is not what the comment at \<^verbatim>\<open>src/main.rs:280\<close> says, which has the
  thread learn it from the first non-broadcast frame.
\<close>

theorem rx_transfer_effect:
  assumes "bulk_ok ep" and "comp_status c = Xfer_Ok"
    and "0 < actual_len c" and "actual_len c \<le> length (comp_buffer c)"
  shows "let fs = rndis_frame_list (take (actual_len c) (comp_buffer c)) in
    fold gateway_after fs (gateway_mac st) = last (gateway_mac st # stations fs) \<and>
    (\<exists>n. process_rx_completion ep host_mac our_ip c st = (Ok True,
      st\<lparr>io_world := in_submit ep RNDIS_BUF_SIZE (reply_all ep (List.map_filter (arp_answer host_mac our_ip) fs)
           (tun_all ep (List.map_filter delivery fs) (io_world st))),
         frame_logged := n,
         gateway_mac := fold gateway_after fs (gateway_mac st),
         io_stats := fold count_rx (map length (delivered fs)) (io_stats st)\<rparr>))"
  using rx_effect [OF assms] gateway_after_last by (simp only: Let_def)

text \<open>
  A transfer with a datagram for the tunnel from one station and a question for our address
  from another, whose address is the one that stays.
\<close>

definition busy_transfer :: "u8 list" where
  "busy_transfer =
     data_message (eth_frame_bytes (Mac 2 0 0 0 0 1) (Mac 6 0 0 0 0 3) 0x0800 [0x45, 1, 2]) @
     data_message (arp_wire mac_broadcast (Mac 4 0 0 0 0 9) 1 (Mac 4 0 0 0 0 9) 5 (Mac 0 0 0 0 0 0) 7)"

lemma busy_transfer_frames:
  "rndis_frame_list busy_transfer =
     [eth_frame_bytes (Mac 2 0 0 0 0 1) (Mac 6 0 0 0 0 3) 0x0800 [0x45, 1, 2],
      arp_wire mac_broadcast (Mac 4 0 0 0 0 9) 1 (Mac 4 0 0 0 0 9) 5 (Mac 0 0 0 0 0 0) 7]" (is "_ = [?f, ?g]")
proof -
  have "carries ?f" "carries ?g"
    by (simp_all add: carries_def) (simp_all add: eth_frame_bytes_def arp_wire_def)
  then show ?thesis
    using rndis_frames_from_items [of "[Data ?f, Data ?g]" "[]" "[]"]
    by (simp add: rndis_frame_list_def rndis_frames_def busy_transfer_def)
qed

theorem rx_transfer_effect_witness:
  "\<exists>st'. process_rx_completion scripted_bulk (Mac 2 0 0 0 0 1) 7
      \<lparr>comp_status = Xfer_Ok, actual_len = length busy_transfer, comp_buffer = busy_transfer\<rparr>
      (io_state_start (io_script_start [] 0) []) = (Ok True, st') \<and>
    q_tun (io_world st') = [[0, 0, 0, 2, 0x45, 1, 2]] \<and>
    q_out (io_world st') = [data_message (arp_wire (Mac 4 0 0 0 0 9) (Mac 2 0 0 0 0 1) 2
       (Mac 2 0 0 0 0 1) 7 (Mac 4 0 0 0 0 9) 5)] \<and>
    gateway_mac st' = Mac 4 0 0 0 0 9 \<and> rx_pkts (io_stats st') = 1"
proof -
  let ?f = "eth_frame_bytes (Mac 2 0 0 0 0 1) (Mac 6 0 0 0 0 3) 0x0800 [0x45, 1, 2]"
  let ?g = "arp_wire mac_broadcast (Mac 4 0 0 0 0 9) 1 (Mac 4 0 0 0 0 9) 5 (Mac 0 0 0 0 0 0) 7"
  have et: "ethertype_of ?f = 0x0800" "ethertype_of ?g = 0x0806"
    by (simp_all add: ethertype_of_def eth_frame_bytes_def arp_wire_def nth_append u16_to_be_bytes_def u16_from_be_def)
  have d: "delivery ?f = Some [0, 0, 0, 2, 0x45, 1, 2]" "delivery ?g = None"
    by (simp_all add: delivery_def et family_for_def utun_bytes_def u32_to_be_bytes_def)
  have a: "arp_answer h 7 ?f = None" "arp_answer h 7 ?g = Some (arp_wire (Mac 4 0 0 0 0 9) h 2 h 7 (Mac 4 0 0 0 0 9) 5)" for h
    using asks_for_ethertype [of 7 ?f] asks_for_wire [of 7 _ _ 1 _ _ _ _ "[]"] asker_wire [where r = "[]"] et
    by (auto simp: arp_answer_def)
  have g: "gateway_after ?f gw = Mac 6 0 0 0 0 3" "gateway_after ?g gw = Mac 4 0 0 0 0 9" for gw
    by (simp_all add: gateway_after_def) (simp_all add: eth_frame_bytes_def arp_wire_def mac_of_bytes_def mac_broadcast_def)
  have l: "0 < length busy_transfer" by (simp add: busy_transfer_def)
  let ?c = "\<lparr>comp_status = Xfer_Ok, actual_len = length busy_transfer, comp_buffer = busy_transfer\<rparr>"
  have "comp_status ?c = Xfer_Ok" "0 < actual_len ?c" "actual_len ?c \<le> length (comp_buffer ?c)"
    using l by simp_all
  from rx_transfer_effect [OF scripted_bulk_ok this, of "io_state_start (io_script_start [] 0) []" "Mac 2 0 0 0 0 1" 7]
  obtain n where "process_rx_completion scripted_bulk (Mac 2 0 0 0 0 1) 7 ?c (io_state_start (io_script_start [] 0) []) =
      (Ok True, (io_state_start (io_script_start [] 0) [])\<lparr>
         io_world := in_submit scripted_bulk RNDIS_BUF_SIZE (reply_all scripted_bulk
           [arp_wire (Mac 4 0 0 0 0 9) (Mac 2 0 0 0 0 1) 2 (Mac 2 0 0 0 0 1) 7 (Mac 4 0 0 0 0 9) 5]
           (tun_all scripted_bulk [[0, 0, 0, 2, 0x45, 1, 2]] (io_script_start [] 0))),
         frame_logged := n, gateway_mac := Mac 4 0 0 0 0 9, io_stats := count_rx (length ?f) stats_default\<rparr>)"
    by (auto simp: busy_transfer_frames map_filter_simps d a g delivered_def Let_def io_state_start_def)
  then show ?thesis
    by (simp add: tun_all_def reply_all_def scripted_bulk_def io_state_start_def io_script_start_def
        count_rx_def stats_default_def)
qed

section \<open>The thread among the others\<close>

text \<open>
  Everything that can happen while the thread lives: a round of its loop, during which the TX
  thread fills the channel as \<open>tx_incoming\<close> says, a packet the TX thread puts into the channel
  between rounds, a change of what it puts in during the next ones, the stop flag cleared by the
  session, and progress of the device, which completes transfers without changing how many are
  pending.
\<close>

inductive io_step :: "'w bulk_endpoints \<Rightarrow> mac \<Rightarrow> u32 \<Rightarrow> nat \<Rightarrow> 'w io_state \<Rightarrow> 'w io_state \<Rightarrow> bool"
  for ep host_mac our_ip fuel where
  round: "bridge_running st \<Longrightarrow> io_round ep host_mac our_ip fuel st = (Ok (Some b), st') \<Longrightarrow>
    io_step ep host_mac our_ip fuel st st'"
| push: "io_step ep host_mac our_ip fuel st (st\<lparr>tx_receiver := tx_receiver st @ [pkt]\<rparr>)"
| next_packets: "io_step ep host_mac our_ip fuel st (st\<lparr>tx_incoming := s\<rparr>)"
| stop: "io_step ep host_mac our_ip fuel st (st\<lparr>bridge_running := False\<rparr>)"
| device: "in_pending ep w = in_pending ep (io_world st) \<Longrightarrow> out_pending ep w = out_pending ep (io_world st) \<Longrightarrow>
    io_step ep host_mac our_ip fuel st (st\<lparr>io_world := w\<rparr>)"

declare io_step.intros [intro]

inductive_cases io_stepE [elim!]: "io_step ep host_mac our_ip fuel st st'"

abbreviation io_steps :: "'w bulk_endpoints \<Rightarrow> mac \<Rightarrow> u32 \<Rightarrow> nat \<Rightarrow> 'w io_state \<Rightarrow> 'w io_state \<Rightarrow> bool" where
  "io_steps ep host_mac our_ip fuel \<equiv> (io_step ep host_mac our_ip fuel)\<^sup>*\<^sup>*"

text \<open>The counter counts the pending reads, and the flags say whether any is left.\<close>

definition io_inv :: "'w bulk_endpoints \<Rightarrow> 'w io_state \<Rightarrow> bool" where
  "io_inv ep st \<longleftrightarrow>
     in_pending ep (io_world st) = unat (active_rx st) \<and> active_rx st \<le> 16 \<and>
     (bridge_running st \<longrightarrow> 0 < active_rx st) \<and> (device_gone st \<longleftrightarrow> active_rx st = 0) \<and>
     gateway_ok (gateway_mac st)"

lemma submit_reads:
  assumes "bulk_ok ep"
  shows "in_pending ep ((in_submit ep n ^^ k) w) = in_pending ep w + k"
    and "out_pending ep ((in_submit ep n ^^ k) w) = out_pending ep w"
  using assms by (induction k) simp_all

lemma io_inv_start:
  assumes "bulk_ok ep" and "in_pending ep (io_world st) = 0" and "gateway_mac st = mac_broadcast"
    and "\<not> device_gone st"
  shows "io_inv ep (io_start ep st)"
proof -
  define st1 where "st1 = st\<lparr>io_world := (in_submit ep RNDIS_BUF_SIZE ^^ NUM_RX_BUFS) (io_world st),
    frame_logged := 0, tx_sent_count := 0, active_rx := of_nat NUM_RX_BUFS\<rparr>"
  have "io_inv ep st1"
    using assms by (simp add: io_inv_def st1_def submit_reads gateway_ok_def)
  moreover have "io_start ep st = refill_tx ep st1" by (simp add: io_start_def st1_def)
  ultimately show ?thesis
    using refill_between [OF assms(1), of st1] by (auto simp: io_inv_def sent_between_def)
qed

lemma io_inv_step:
  assumes "bulk_ok ep" and "io_step ep host_mac our_ip fuel st st'" and "io_inv ep st"
  shows "io_inv ep st'"
  using assms(2)
proof cases
  case (round b)
  with assms(3) have "0 < active_rx st" "reads_counted ep st"
    by (simp_all add: io_inv_def reads_counted_def)
  from io_round_ok [OF assms(1) this(2,1), of host_mac our_ip fuel] round assms(3) show ?thesis
    by (cases b) (auto simp: io_inv_def reads_counted_def intro: order.trans)
qed (use assms(3) in \<open>auto simp: io_inv_def\<close>)

lemma io_inv_steps:
  "io_steps ep host_mac our_ip fuel st st' \<Longrightarrow> bulk_ok ep \<Longrightarrow> io_inv ep st \<Longrightarrow> io_inv ep st'"
  by (induction rule: rtranclp_induct) (auto dest: io_inv_step)

text \<open>
  Claim C1: at every state that the I/O thread, the TX thread, the session and the device reach
  together, as many reads are pending as the thread counts, at most sixteen; while the thread runs at
  least one is, so that no wait is on an empty endpoint and the next round runs without a panic; the
  device counts as gone exactly when no read is left; and the gateway's address is the broadcast address
  it starts with or one whose first byte is not 255.
\<close>

theorem io_safety:
  assumes "bulk_ok ep" and "in_pending ep (io_world st0) = 0" and "gateway_mac st0 = mac_broadcast"
    and "\<not> device_gone st0" and "io_steps ep host_mac our_ip fuel (io_start ep st0) st"
  shows "in_pending ep (io_world st) = unat (active_rx st) \<and> active_rx st \<le> 16 \<and>
    (bridge_running st \<longrightarrow> 0 < in_pending ep (io_world st) \<and>
       (\<exists>r st'. io_round ep host_mac our_ip fuel st = (Ok r, st'))) \<and>
    (device_gone st \<longleftrightarrow> in_pending ep (io_world st) = 0) \<and> gateway_ok (gateway_mac st)"
proof -
  have inv: "io_inv ep st"
    using io_inv_steps [OF assms(5,1)] io_inv_start [OF assms(1-4)] by blast
  moreover have "\<exists>r st'. io_round ep host_mac our_ip fuel st = (Ok r, st')" if "bridge_running st"
    using io_round_ok [OF assms(1), of st host_mac our_ip fuel] inv that
    by (auto simp: io_inv_def reads_counted_def)
  ultimately show ?thesis
    by (auto simp: io_inv_def word_less_nat_alt unat_eq_0)
qed

theorem io_safety_witness:
  "\<exists>st r st'. io_steps scripted_bulk (Mac 2 0 0 0 0 1) 7 9
      (io_start scripted_bulk (io_state_start (io_script_start [(Xfer_Ok, busy_transfer)] 0) [[1]])) st \<and>
    tx_receiver st = [[2]] \<and> q_reads (io_world st) = 16 \<and>
    io_round scripted_bulk (Mac 2 0 0 0 0 1) 7 9 st = (Ok r, st')"
proof -
  let ?a = "io_state_start (io_script_start [(Xfer_Ok, busy_transfer)] 0) [[1]]"
  let ?st = "io_start scripted_bulk ?a"
  let ?b = "?st\<lparr>tx_receiver := tx_receiver ?st @ [[2]]\<rparr>"
  have st: "active_rx ?st = 16" "tx_receiver ?st = []" "bridge_running ?st"
    using refill_loop_form [OF scripted_bulk_ok, of "[[1]]"]
      submit_reads [OF scripted_bulk_ok, of 16 32768 "io_script_start [(Xfer_Ok, busy_transfer)] 0"]
    by (simp_all add: io_start_def refill_tx_def io_state_start_def io_script_start_def
        fold_submit_form Let_def submit_packet_def del: refill_loop.simps)
  have steps: "io_steps scripted_bulk (Mac 2 0 0 0 0 1) 7 9 ?st ?b" by blast
  have start: "in_pending scripted_bulk (io_world ?a) = 0" "gateway_mac ?a = mac_broadcast" "\<not> device_gone ?a"
    by (simp_all add: io_state_start_def io_script_start_def)
  from io_safety [OF scripted_bulk_ok start steps] st
  have "q_reads (io_world ?b) = 16" and r: "\<exists>r st'. io_round scripted_bulk (Mac 2 0 0 0 0 1) 7 9 ?b = (Ok r, st')"
    by simp_all
  with steps st show ?thesis
    by (intro exI [of _ ?b]) (simp del: scripted_pending)
qed

section \<open>Losing the device\<close>

text \<open>
  When the device is unplugged every pending read fails. On the scripted endpoints: a list of
  completions with sixteen failures among them ends the thread in its first round.
\<close>

definition failures :: "(transfer_status \<times> u8 list) list \<Rightarrow> nat" where
  "failures done = length (filter (\<lambda>(status, _). status \<noteq> Xfer_Ok) done)"

lemma failures_simps [simp]:
  "failures [] = 0"
  "failures ((status, bytes) # ds) = (if status = Xfer_Ok then failures ds else Suc (failures ds))"
  by (simp_all add: failures_def)

lemma script_keeps [simp]:
  "q_done (reply_all scripted_bulk rs w) = q_done w" "q_reads (reply_all scripted_bulk rs w) = q_reads w"
  "q_done (tun_all scripted_bulk ps w) = q_done w" "q_reads (tun_all scripted_bulk ps w) = q_reads w"
  "q_done (in_submit scripted_bulk n w) = q_done w" "q_reads (in_submit scripted_bulk n w) = Suc (q_reads w)"
proof -
  show "q_done (reply_all scripted_bulk rs w) = q_done w" "q_reads (reply_all scripted_bulk rs w) = q_reads w"
    by (induction rs arbitrary: w) (simp_all add: reply_all_def scripted_bulk_def)
  show "q_done (tun_all scripted_bulk ps w) = q_done w" "q_reads (tun_all scripted_bulk ps w) = q_reads w"
    by (induction ps arbitrary: w) (simp_all add: tun_all_def scripted_bulk_def)
qed (simp_all add: scripted_bulk_def)

text \<open>Reads left after one completion, and after a list of them.\<close>

definition reads_after :: "nat \<Rightarrow> io_script io_state \<Rightarrow> io_script io_state \<Rightarrow> bool" where
  "reads_after lost st st' \<longleftrightarrow>
     q_reads (io_world st') = unat (active_rx st') \<and> unat (active_rx st') = unat (active_rx st) - lost \<and>
     bridge_running st' = bridge_running st \<and> device_gone st' = device_gone st"

lemma handle_script:
  assumes "Suc (q_reads (io_world st)) = unat (active_rx st)"
  shows "\<exists>st'. handle_rx scripted_bulk host_mac our_ip
      \<lparr>comp_status = status, actual_len = length bytes, comp_buffer = bytes\<rparr> st = (Ok (), st') \<and>
    q_done (io_world st') = q_done (io_world st) \<and> reads_after (if status = Xfer_Ok then 0 else 1) st st'"
proof -
  let ?c = "\<lparr>comp_status = status, actual_len = length bytes, comp_buffer = bytes\<rparr>"
  have a: "active_rx st \<noteq> 0" using assms by auto
  consider "status \<noteq> Xfer_Ok" | "status = Xfer_Ok" "bytes = []" | "status = Xfer_Ok" "bytes \<noteq> []" by blast
  then show ?thesis
  proof cases
    case 1
    with a assms show ?thesis
      by (auto simp: handle_rx_def process_rx_completion_def io_then_def modify_def account_rx_def
          reads_after_def unat_minus_one)
  next
    case 2
    with assms show ?thesis
      by (simp add: handle_rx_def process_rx_completion_def resubmit_ok [OF scripted_bulk_ok] io_then_def
          modify_def account_rx_def reads_after_def)
  next
    case 3
    with rx_effect [OF scripted_bulk_ok, of ?c host_mac our_ip st] assms show ?thesis
      by (auto simp: handle_rx_def io_then_def modify_def account_rx_def reads_after_def Let_def)
  qed
qed

lemma wait_script:
  "q_done w = (status, bytes) # ds \<Longrightarrow> 0 < q_reads w \<Longrightarrow> in_wait scripted_bulk t w =
    (Ok (Some \<lparr>comp_status = status, actual_len = length bytes, comp_buffer = bytes\<rparr>),
     w\<lparr>q_reads := q_reads w - 1, q_done := ds\<rparr>)"
  "q_done w = [] \<Longrightarrow> 0 < q_reads w \<Longrightarrow> in_wait scripted_bulk t w = (Ok None, w)"
  by (simp_all add: scripted_bulk_def)

lemma rx_ready_script:
  assumes "length (q_done (io_world st)) < fuel" and "q_reads (io_world st) = unat (active_rx st)"
  shows "\<exists>st'. rx_ready scripted_bulk host_mac our_ip fuel st = (Ok (Some ()), st') \<and>
    reads_after (failures (q_done (io_world st))) st st'"
  using assms
proof (induction fuel arbitrary: st)
  case (Suc fuel)
  show ?case
  proof (cases "q_reads (io_world st) = 0")
    case True
    with Suc.prems show ?thesis by (simp add: reads_after_def)
  next
    case False
    show ?thesis
    proof (cases "q_done (io_world st)")
      case Nil
      with False Suc.prems show ?thesis
        by (simp add: wait_script on_world_run io_then_def io_lift_def reads_after_def)
    next
      case (Cons d ds)
      obtain status bytes where d: "d = (status, bytes)" by (cases d)
      let ?st = "st\<lparr>io_world := (io_world st)\<lparr>q_reads := q_reads (io_world st) - 1, q_done := ds\<rparr>\<rparr>"
      obtain st1 where h: "handle_rx scripted_bulk host_mac our_ip
          \<lparr>comp_status = status, actual_len = length bytes, comp_buffer = bytes\<rparr> ?st = (Ok (), st1)"
        "q_done (io_world st1) = ds" "reads_after (if status = Xfer_Ok then 0 else 1) ?st st1"
        using handle_script [of ?st host_mac our_ip status bytes] False Suc.prems by auto
      then obtain st2 where r: "rx_ready scripted_bulk host_mac our_ip fuel st1 = (Ok (Some ()), st2)"
        "reads_after (failures ds) st1 st2"
        using Suc.IH [of st1] Suc.prems Cons by (auto simp: reads_after_def)
      have "rx_ready scripted_bulk host_mac our_ip (Suc fuel) st = (Ok (Some ()), st2)"
        using False Cons d h(1) r(1) by (simp add: wait_script on_world_run io_then_def)
      moreover have "reads_after (failures (q_done (io_world st))) st st2"
        using h(3) r(2) Cons d by (auto simp: reads_after_def split: if_splits)
      ultimately show ?thesis by blast
    qed
  qed
qed simp

lemma start_script:
  assumes "st = io_start scripted_bulk (io_state_start (io_script_start comps ready) chan)"
  shows "q_done (io_world st) = comps" "q_reads (io_world st) = 16" "active_rx st = 16" "bridge_running st"
    "\<not> device_gone st"
proof -
  have subm: "q_done ((in_submit scripted_bulk n ^^ k) w) = q_done w" for n k w
    by (induction k) simp_all
  have outs: "q_done (fold (out_submit scripted_bulk) ps w) = q_done w"
    "q_reads (fold (out_submit scripted_bulk) ps w) = q_reads w" for ps w
    by (induction ps arbitrary: w) (simp_all add: scripted_bulk_def)
  note subms = submit_reads(1) [OF scripted_bulk_ok, unfolded scripted_pending]
  show "q_done (io_world st) = comps" "q_reads (io_world st) = 16" "active_rx st = 16" "bridge_running st"
    "\<not> device_gone st"
    by (simp_all add: assms io_start_def refill_tx_def refill_loop_form [OF scripted_bulk_ok]
        fold_submit_form outs subm subms Let_def io_state_start_def io_script_start_def)
qed

lemma round_script:
  assumes "q_done (io_world st) \<noteq> []" and "q_reads (io_world st) = 16" and "active_rx st = 16"
    and "length (q_done (io_world st)) \<le> fuel"
  shows "\<exists>st1. io_round scripted_bulk host_mac our_ip fuel st =
      (if active_rx st1 = 0 then (Ok (Some False), st1\<lparr>device_gone := True, bridge_running := False\<rparr>)
       else io_then (drain_out_and_refill scripted_bulk fuel) (\<lambda>r. io_lift (Ok (map_option (\<lambda>_. True) r))) st1) \<and>
    reads_after (failures (q_done (io_world st))) st st1"
proof -
  obtain status bytes ds where d: "q_done (io_world st) = (status, bytes) # ds"
    using assms(1) by (cases "q_done (io_world st)") auto
  let ?st = "st\<lparr>io_world := (io_world st)\<lparr>q_reads := 15, q_done := ds\<rparr>\<rparr>"
  obtain st1 where h: "handle_rx scripted_bulk host_mac our_ip
      \<lparr>comp_status = status, actual_len = length bytes, comp_buffer = bytes\<rparr> ?st = (Ok (), st1)"
    "q_done (io_world st1) = ds" "reads_after (if status = Xfer_Ok then 0 else 1) ?st st1"
    using handle_script [of ?st host_mac our_ip status bytes] assms(3) by auto
  then obtain st2 where r: "rx_ready scripted_bulk host_mac our_ip fuel st1 = (Ok (Some ()), st2)"
    "reads_after (failures ds) st1 st2"
    using rx_ready_script [of st1 fuel] assms(4) d by (auto simp: reads_after_def)
  have "reads_after (failures (q_done (io_world st))) st st2"
    using h(3) r(2) d by (auto simp: reads_after_def split: if_splits)
  moreover have "io_round scripted_bulk host_mac our_ip fuel st =
      (if active_rx st2 = 0 then (Ok (Some False), st2\<lparr>device_gone := True, bridge_running := False\<rparr>)
       else io_then (drain_out_and_refill scripted_bulk fuel) (\<lambda>r. io_lift (Ok (map_option (\<lambda>_. True) r))) st2)"
    using d h(1) r(1) assms(2) by (simp add: io_round_def wait_script on_world_run io_then_def)
  ultimately show ?thesis by blast
qed

text \<open>
  Claim C8: unplugging is noticed, and nothing else is taken for it. When at least sixteen of the
  completed reads have failed, in any order among good ones, the thread ends after one round with the
  device marked as gone and the session's flag cleared; with fewer failures the round does not mark
  it, and one read is lost per failure. Neither outcome depends on what the transfers contain.
\<close>

theorem unplug_noticed:
  assumes "done \<noteq> []" and "length done \<le> fuel"
  shows "\<exists>r st'. io_round scripted_bulk host_mac our_ip fuel
      (io_start scripted_bulk (io_state_start (io_script_start done ready) chan)) = (Ok r, st') \<and>
    unat (active_rx st') = 16 - failures done \<and> q_reads (io_world st') = 16 - failures done \<and>
    (device_gone st' \<longleftrightarrow> 16 \<le> failures done) \<and> (bridge_running st' \<longleftrightarrow> failures done < 16) \<and>
    (16 \<le> failures done \<longrightarrow> io_run scripted_bulk host_mac our_ip fuel (Suc rounds)
       (io_state_start (io_script_start done ready) chan) = (Ok (Some ()), st'))"
proof -
  let ?a = "io_state_start (io_script_start done ready) chan"
  let ?st = "io_start scripted_bulk ?a"
  obtain st1 where r: "io_round scripted_bulk host_mac our_ip fuel ?st =
      (if active_rx st1 = 0 then (Ok (Some False), st1\<lparr>device_gone := True, bridge_running := False\<rparr>)
       else io_then (drain_out_and_refill scripted_bulk fuel) (\<lambda>r. io_lift (Ok (map_option (\<lambda>_. True) r))) st1)"
    and a: "reads_after (failures done) ?st st1"
    using round_script [of ?st fuel host_mac our_ip] assms start_script [OF refl] by auto
  have act: "unat (active_rx st1) = 16 - failures done" "q_reads (io_world st1) = 16 - failures done"
    and run: "bridge_running st1" "\<not> device_gone st1"
    using a start_script [OF refl] by (simp_all add: reads_after_def)
  show ?thesis
  proof (cases "16 \<le> failures done")
    case True
    with act have "active_rx st1 = 0" by (simp add: unat_eq_0)
    with r True act show ?thesis
      by (auto simp: io_run_def io_then_def io_lift_def start_script [OF refl])
  next
    case False
    with act have "active_rx st1 \<noteq> 0" by auto
    with r False act run drain_and_refill_reads [OF scripted_bulk_ok, of fuel st1] show ?thesis
      by (auto simp: io_then_def io_lift_def)
  qed
qed

theorem unplug_noticed_witness:
  "\<exists>st'. io_run scripted_bulk (Mac 2 0 0 0 0 1) 7 17 1
      (io_state_start (io_script_start ((Xfer_Ok, busy_transfer) # replicate 16 (Xfer_Cancelled, [])) 0) []) =
      (Ok (Some ()), st') \<and> device_gone st'"
proof -
  have "failures (replicate n (Xfer_Cancelled, [])) = n" for n by (induction n) simp_all
  then show ?thesis
    using unplug_noticed [of "(Xfer_Ok, busy_transfer) # replicate 16 (Xfer_Cancelled, [])" 17
        "Mac 2 0 0 0 0 1" 7 0 "[]" 0] by auto
qed

end
