(* ===== verification/Config.thy ===== *)
theory Config
  imports Prelude Ipv4
begin

text \<open>
  \<^verbatim>\<open>src/config.rs\<close>: the configuration, its INI file and the command line. The parsed
  command line (the \<open>clap\<close> crate's work) is a record, the configuration file a parameter:
  what reading it gives, if it exists and is readable. Text is ASCII: for other characters
  Rust's \<open>trim\<close> and \<open>to_lowercase\<close> know more than is written here.
\<close>

section \<open>Text operations of the standard library\<close>

definition is_space :: "char \<Rightarrow> bool" where
  "is_space c \<longleftrightarrow> c = CHR '' '' \<or> c \<in> {CHR 0x09, CHR 0x0A, CHR 0x0B, CHR 0x0C, CHR 0x0D}"

definition trim :: "string \<Rightarrow> string" where
  "trim s = rev (dropWhile is_space (rev (dropWhile is_space s)))"

definition to_lower_char :: "char \<Rightarrow> char" where
  "to_lower_char c = (let n = of_char c :: nat in if 65 \<le> n \<and> n \<le> 90 then char_of (n + 32) else c)"

definition to_lowercase :: "string \<Rightarrow> string" where
  "to_lowercase s = map to_lower_char s"

definition newline :: char where [simp]: "newline = CHR 0x0A"

definition strip_cr :: "string \<Rightarrow> string" where
  "strip_cr s = (if s \<noteq> [] \<and> last s = CHR 0x0D then butlast s else s)"

text \<open>\<open>str::lines\<close>: without the line ends, a last empty line does not count.\<close>

definition lines :: "string \<Rightarrow> string list" where
  "lines s = (let ps = split_on newline s in
     map strip_cr (butlast ps) @ (if last ps = [] then [] else [last ps]))"

fun find_char :: "char \<Rightarrow> string \<Rightarrow> nat option" where
  "find_char x [] = None"
| "find_char x (c # s) = (if c = x then Some 0 else map_option Suc (find_char x s))"

section \<open>Data\<close>

datatype dns_mode = System | DoH | DoT

datatype dns_provider = Cloudflare | Google | Quad9

text \<open>\<open>LevelFilter\<close> of the \<open>log\<close> crate, ordered by verbosity.\<close>

datatype log_level = Off | Error_Level | Warn | Info | Debug | Trace

fun level_rank :: "log_level \<Rightarrow> nat" where
  "level_rank Off = 0"
| "level_rank Error_Level = 1"
| "level_rank Warn = 2"
| "level_rank Info = 3"
| "level_rank Debug = 4"
| "level_rank Trace = 5"

lemma level_rank_inject: "level_rank a = level_rank b \<Longrightarrow> a = b"
  by (cases a; cases b) simp_all

instantiation log_level :: linorder
begin

definition "a \<le> b \<longleftrightarrow> level_rank a \<le> level_rank b" for a b :: log_level

definition "a < b \<longleftrightarrow> level_rank a < level_rank b" for a b :: log_level

instance
  by standard (auto simp: less_eq_log_level_def less_log_level_def dest: level_rank_inject)

end

record cli_args =
  arg_no_route :: bool
  arg_no_dns :: bool
  arg_static_ip :: "string option"
  arg_gateway :: "string option"
  arg_netmask :: "string option"
  arg_config :: "string option"
  arg_verbose :: bool
  arg_watch :: bool
  arg_dns_mode :: string
  arg_dns_provider :: string
  arg_daemon :: bool
  arg_install :: bool
  arg_uninstall :: bool

record tether_config =
  no_route :: bool
  no_dns :: bool
  static_ip :: "ipv4 option"
  gateway :: "ipv4 option"
  netmask :: ipv4
  log_level :: log_level
  watch_mode :: bool
  dns_mode :: dns_mode
  dns_provider :: dns_provider
  daemon :: bool
  install :: bool
  uninstall :: bool

definition config_default :: "tether_config outcome" where
  "config_default =
     and_then (parse_unwrap ''255.255.255.0'') (\<lambda>netmask. Ok
       \<lparr>no_route = False, no_dns = False, static_ip = None, gateway = None, netmask = netmask,
        log_level = Info, watch_mode = False, dns_mode = System, dns_provider = Cloudflare,
        daemon = False, install = False, uninstall = False\<rparr>)"

section \<open>Operations\<close>

definition parse_dns_mode :: "string \<Rightarrow> dns_mode" where
  "parse_dns_mode s = (let l = to_lowercase s in
     if l = ''doh'' then DoH else if l = ''dot'' then DoT else System)"

definition parse_dns_provider :: "string \<Rightarrow> dns_provider" where
  "parse_dns_provider s = (let l = to_lowercase s in
     if l = ''google'' then Google else if l = ''quad9'' then Quad9 else Cloudflare)"

definition parse_level :: "string \<Rightarrow> log_level" where
  "parse_level s = (let l = to_lowercase s in
     if l = ''debug'' then Debug else if l = ''info'' then Info else if l = ''warn'' then Warn
     else if l = ''error'' then Error_Level else Info)"

text \<open>The \<open>match\<close> on section and key.\<close>

definition set_key :: "string \<Rightarrow> string \<Rightarrow> string \<Rightarrow> tether_config \<Rightarrow> tether_config" where
  "set_key section key val cfg =
     (if section = ''network'' \<and> key = ''no_route'' then cfg\<lparr>no_route := (val = ''true'')\<rparr>
      else if section = ''network'' \<and> key = ''no_dns'' then cfg\<lparr>no_dns := (val = ''true'')\<rparr>
      else if section = ''network'' \<and> key = ''static_ip'' \<and> val \<noteq> [] then
        (case ipv4_from_str val of Some ip \<Rightarrow> cfg\<lparr>static_ip := Some ip\<rparr> | None \<Rightarrow> cfg)
      else if section = ''network'' \<and> key = ''gateway'' \<and> val \<noteq> [] then
        (case ipv4_from_str val of Some ip \<Rightarrow> cfg\<lparr>gateway := Some ip\<rparr> | None \<Rightarrow> cfg)
      else if section = ''network'' \<and> key = ''netmask'' \<and> val \<noteq> [] then
        (case ipv4_from_str val of Some ip \<Rightarrow> cfg\<lparr>netmask := ip\<rparr> | None \<Rightarrow> cfg)
      else if section = ''logging'' \<and> key = ''level'' then cfg\<lparr>log_level := parse_level val\<rparr>
      else if section = ''dns'' \<and> key = ''mode'' then cfg\<lparr>dns_mode := parse_dns_mode val\<rparr>
      else if section = ''dns'' \<and> key = ''provider'' then cfg\<lparr>dns_provider := parse_dns_provider val\<rparr>
      else cfg)"

definition merge_line ::
  "string \<Rightarrow> string \<times> tether_config \<Rightarrow> (string \<times> tether_config) outcome" where
  "merge_line line st = (case st of (section, cfg) \<Rightarrow>
     let line = trim line in
     if line = [] \<or> hd line = CHR '';'' \<or> hd line = CHR ''#'' then Ok (section, cfg)
     else if hd line = CHR ''['' \<and> last line = CHR '']'' then
       and_then (subslice line 1 (length line - 1)) (\<lambda>name. Ok (to_lowercase name, cfg))
     else
       (case find_char (CHR ''='') line of
          None \<Rightarrow> Ok (section, cfg)
        | Some eq \<Rightarrow>
            and_then (subslice_to line eq) (\<lambda>k.
            and_then (subslice_from line (eq + 1)) (\<lambda>v.
            Ok (section, set_key section (trim k) (trim v) cfg)))))"

fun merge_lines ::
  "string list \<Rightarrow> string \<times> tether_config \<Rightarrow> (string \<times> tether_config) outcome" where
  "merge_lines [] st = Ok st"
| "merge_lines (l # ls) st = and_then (merge_line l st) (merge_lines ls)"

definition merge_ini :: "string \<Rightarrow> tether_config \<Rightarrow> tether_config outcome" where
  "merge_ini contents cfg = map_ok snd (merge_lines (lines contents) ([], cfg))"

text \<open>
  An address argument: parsed with \<open>?\<close>, the error naming the option and the text.
\<close>

definition parse_arg :: "string \<Rightarrow> string \<Rightarrow> ipv4 outcome" where
  "parse_arg what s = (case ipv4_from_str s of
     Some ip \<Rightarrow> Ok ip | None \<Rightarrow> Err (Config_Error (''invalid '' @ what @ '': '' @ s)))"

text \<open>
  \<open>read_config\<close> is the file system: what is in the file named by \<open>--config\<close>, or in the
  default place when there is no such option, if it exists and can be read.
\<close>

definition from_cli :: "(string option \<Rightarrow> string option) \<Rightarrow> cli_args \<Rightarrow> tether_config outcome" where
  "from_cli read_config args =
     and_then config_default (\<lambda>cfg.
     let cfg = cfg\<lparr>log_level := (if arg_verbose args then Debug else Info), watch_mode := arg_watch args,
         daemon := arg_daemon args, install := arg_install args, uninstall := arg_uninstall args\<rparr>;
         cfg = (if arg_no_route args then cfg\<lparr>no_route := True\<rparr> else cfg);
         cfg = (if arg_no_dns args then cfg\<lparr>no_dns := True\<rparr> else cfg) in
     and_then (case read_config (arg_config args) of
         Some contents \<Rightarrow> merge_ini contents cfg | None \<Rightarrow> Ok cfg) (\<lambda>cfg.
     and_then (case arg_static_ip args of
         Some ip \<Rightarrow> map_ok (\<lambda>a. cfg\<lparr>static_ip := Some a\<rparr>) (parse_arg ''IP'' ip) | None \<Rightarrow> Ok cfg) (\<lambda>cfg.
     and_then (case arg_gateway args of
         Some gw \<Rightarrow> map_ok (\<lambda>a. cfg\<lparr>gateway := Some a\<rparr>) (parse_arg ''gateway'' gw) | None \<Rightarrow> Ok cfg) (\<lambda>cfg.
     and_then (case arg_netmask args of
         Some nm \<Rightarrow> map_ok (\<lambda>a. cfg\<lparr>netmask := a\<rparr>) (parse_arg ''netmask'' nm) | None \<Rightarrow> Ok cfg) (\<lambda>cfg.
     let cfg = cfg\<lparr>dns_mode := parse_dns_mode (arg_dns_mode args),
                   dns_provider := parse_dns_provider (arg_dns_provider args)\<rparr> in
     if static_ip cfg \<noteq> None \<and> gateway cfg = None then
       and_then (parse_unwrap ''192.168.42.129'') (\<lambda>gw. Ok (cfg\<lparr>gateway := Some gw\<rparr>))
     else Ok cfg)))))"

section \<open>Every file merges\<close>

lemma bracketed_length:
  assumes "line \<noteq> []" and "hd line = CHR ''[''" and "last line = CHR '']''"
  shows "1 \<le> length line - 1"
  using assms by (cases line; cases "tl line") auto

lemma find_char_less: "find_char x s = Some i \<Longrightarrow> i < length s \<and> s ! i = x \<and> x \<notin> set (take i s)"
  by (induction s arbitrary: i) (auto split: if_splits)

lemma merge_line_total: "\<exists>sec cfg'. merge_line line (section, cfg) = Ok (sec, cfg')"
  using bracketed_length [of "trim line"]
  by (auto simp: merge_line_def Let_def dest!: find_char_less split: option.splits)

lemma merge_lines_total: "\<exists>st'. merge_lines ls st = Ok st'"
proof (induction ls arbitrary: st)
  case (Cons l ls)
  then show ?case using merge_line_total [of l "fst st" "snd st"] by auto
qed simp

text \<open>What no key of the file reaches.\<close>

definition cli_part :: "tether_config \<Rightarrow> bool \<times> bool \<times> bool \<times> bool" where
  "cli_part cfg = (watch_mode cfg, daemon cfg, install cfg, uninstall cfg)"

lemma set_key_cli_part [simp]: "cli_part (set_key sec k v cfg) = cli_part cfg"
  by (auto simp: set_key_def cli_part_def split: option.splits)

lemma merge_line_cli_part:
  "merge_line line (section, cfg) = Ok (sec, cfg') \<Longrightarrow> cli_part cfg' = cli_part cfg"
  by (auto simp: merge_line_def Let_def and_then_eq_Ok_iff split: if_splits option.splits)

lemma merge_lines_cli_part:
  "merge_lines ls (sec0, cfg) = Ok (sec, cfg') \<Longrightarrow> cli_part cfg' = cli_part cfg"
proof (induction ls arbitrary: sec0 cfg)
  case (Cons l ls)
  then show ?case
    by (auto simp: and_then_eq_Ok_iff dest!: merge_line_cli_part)
qed simp

lemma merge_ini_ok: "\<exists>cfg'. merge_ini contents cfg = Ok cfg'"
  using merge_lines_total [of "lines contents" "([], cfg)"] by (force simp: merge_ini_def)

text \<open>
  Merging a configuration file never fails and never panics, whatever the text, and leaves
  what only the command line decides (watch mode, daemon mode, install, uninstall) as it was.
\<close>

theorem merge_ini_total:
  "\<exists>cfg'. merge_ini contents cfg = Ok cfg' \<and> cli_part cfg' = cli_part cfg"
proof -
  obtain sec cfg' where m: "merge_lines (lines contents) ([], cfg) = Ok (sec, cfg')"
    using merge_lines_total [of "lines contents" "([], cfg)"] by force
  with merge_lines_cli_part [OF m] show ?thesis by (simp add: merge_ini_def)
qed

section \<open>Written files\<close>

text \<open>A file as a list of sections with their entries, and its text.\<close>

fun render_entry :: "string \<times> string \<Rightarrow> string" where
  "render_entry (k, v) = k @ '' = '' @ v @ [newline]"

fun render_section :: "string \<times> (string \<times> string) list \<Rightarrow> string" where
  "render_section (sec, es) = ''['' @ sec @ '']'' @ [newline] @ concat (map render_entry es)"

definition render_ini :: "(string \<times> (string \<times> string) list) list \<Rightarrow> string" where
  "render_ini ss = concat (map render_section ss)"

definition trimmed :: "string \<Rightarrow> bool" where
  "trimmed s \<longleftrightarrow> s \<noteq> [] \<longrightarrow> \<not> is_space (hd s) \<and> \<not> is_space (last s)"

fun entry_ok :: "string \<times> string \<Rightarrow> bool" where
  "entry_ok (k, v) \<longleftrightarrow> k \<noteq> [] \<and> trimmed k \<and> trimmed v \<and> newline \<notin> set k \<and> newline \<notin> set v \<and>
     CHR ''='' \<notin> set k \<and> hd k \<notin> set '';#[''"

fun section_ok :: "string \<times> (string \<times> string) list \<Rightarrow> bool" where
  "section_ok (sec, es) \<longleftrightarrow> newline \<notin> set sec \<and> list_all entry_ok es"

definition apply_sections ::
  "(string \<times> (string \<times> string) list) list \<Rightarrow> tether_config \<Rightarrow> tether_config" where
  "apply_sections ss cfg =
     fold (\<lambda>(sec, es) cfg. fold (\<lambda>(k, v) cfg. set_key (to_lowercase sec) k v cfg) es cfg) ss cfg"

lemma trim_trimmed: "trimmed s \<Longrightarrow> trim s = s"
proof (cases "s = []")
  case False
  assume "trimmed s"
  with False have "\<not> is_space (hd s)" "\<not> is_space (hd (rev s))" by (auto simp: trimmed_def hd_rev)
  then have "dropWhile is_space s = s" "dropWhile is_space (rev s) = rev s"
    using False by (auto simp: dropWhile_eq_self_iff)
  then show ?thesis by (simp add: trim_def)
qed (simp add: trim_def)

lemma trim_spaces:
  assumes "\<forall>c\<in>set sp. is_space c"
  shows "trim (sp @ s) = trim s" and "trimmed s \<Longrightarrow> trim (s @ sp) = s"
proof -
  from assms show "trim (sp @ s) = trim s" by (simp add: trim_def dropWhile_append2)
  assume t: "trimmed s"
  show "trim (s @ sp) = s"
  proof (cases "s = []")
    case True
    with assms show ?thesis by (simp add: trim_def dropWhile_eq_Nil_conv [THEN iffD2])
  next
    case False
    with t have "dropWhile is_space (s @ sp) = s @ sp"
      by (auto simp: trimmed_def dropWhile_eq_self_iff)
    moreover have "dropWhile is_space (rev sp @ rev s) = dropWhile is_space (rev s)"
      using assms by (intro dropWhile_append2) simp
    moreover have "dropWhile is_space (rev s) = rev s"
      using t False by (auto simp: trimmed_def dropWhile_eq_self_iff hd_rev)
    ultimately show ?thesis by (simp add: trim_def)
  qed
qed

lemma split_on_not_Nil [simp]: "split_on x s \<noteq> []"
  by (induction s) (auto split: list.splits)

lemma lines_Cons: "newline \<notin> set l \<Longrightarrow> lines (l @ newline # s) = strip_cr l # lines s"
  using split_on_append [of newline l s] by (simp add: lines_def Let_def)

lemma lines_Nil [simp]: "lines [] = []"
  by (simp add: lines_def)

lemma trim_strip_cr: "trim (strip_cr l) = trim l"
proof (cases "l \<noteq> [] \<and> last l = CHR 0x0D")
  case True
  then obtain l' where l: "l = l' @ [CHR 0x0D]" by (metis append_butlast_last_id)
  have "dropWhile is_space (l' @ [CHR 0x0D]) =
      (if \<forall>c\<in>set l'. is_space c then [] else dropWhile is_space l' @ [CHR 0x0D])"
  proof (induction l')
    case Nil
    then show ?case by (simp add: is_space_def)
  qed simp
  moreover have "dropWhile is_space l' = []" if "\<forall>c\<in>set l'. is_space c"
    using that by (simp add: dropWhile_eq_Nil_conv)
  moreover have "is_space (CHR 0x0D)" by (simp add: is_space_def)
  ultimately show ?thesis
    by (cases "\<forall>c\<in>set l'. is_space c") (simp_all add: l strip_cr_def trim_def del: dropWhile_eq_Nil_conv)
qed (auto simp: strip_cr_def)

lemma find_char_first: "x \<notin> set p \<Longrightarrow> find_char x (p @ x # s) = Some (length p)"
  by (induction p) auto

lemma merge_line_section:
  assumes "newline \<notin> set sec"
  shows "merge_line (strip_cr (''['' @ sec @ '']'')) (section, cfg) = Ok (to_lowercase sec, cfg)"
proof -
  have "trimmed (''['' @ sec @ '']'')" by (simp add: trimmed_def is_space_def)
  then have t: "trim (strip_cr (''['' @ sec @ '']'')) = ''['' @ sec @ '']''"
    by (simp only: trim_strip_cr trim_trimmed)
  show ?thesis unfolding merge_line_def t by (simp add: Let_def)
qed

lemma merge_line_entry:
  assumes "entry_ok (k, v)"
  shows "merge_line (strip_cr (k @ '' = '' @ v)) (section, cfg) = Ok (section, set_key section k v cfg)"
proof -
  have k: "k \<noteq> []" "trimmed k" "trimmed v" "CHR ''='' \<notin> set k" and
    h: "hd k \<noteq> CHR '';''" "hd k \<noteq> CHR ''#''" "hd k \<noteq> CHR ''[''"
    using assms by auto
  have sp: "\<forall>c\<in>set '' ''. is_space c" by (simp add: is_space_def)
  let ?line = "trim (strip_cr (k @ '' = '' @ v))"
  obtain s where line: "?line = (k @ '' '') @ CHR ''='' # s" and s: "trim s = v"
  proof (cases "v = []")
    case True
    have "trimmed (k @ '' ='')" using k by (simp add: trimmed_def is_space_def)
    from trim_spaces(2) [OF sp this] have "?line = (k @ '' '') @ CHR ''='' # []"
      by (simp add: trim_strip_cr True)
    then show ?thesis using that [of "[]"] True by (simp add: trim_def)
  next
    case False
    then have "trimmed (k @ '' = '' @ v)" using k by (simp add: trimmed_def)
    then have "?line = (k @ '' '') @ CHR ''='' # '' '' @ v"
      by (simp add: trim_strip_cr trim_trimmed)
    then show ?thesis using that [of "'' '' @ v"] trim_spaces(1) [OF sp, of v] trim_trimmed [OF k(3)] by simp
  qed
  have f: "find_char (CHR ''='') ((k @ '' '') @ CHR ''='' # s) = Some (length k + 1)"
    using find_char_first [of "CHR ''=''" "k @ '' ''" s] k(4) by simp
  have tk: "trim (k @ '' '') = k" by (rule trim_spaces(2) [OF sp k(2)])
  show ?thesis
    unfolding merge_line_def Let_def line f prod.case option.case
    using k(1) h s tk by simp
qed

lemma merge_entries:
  assumes "list_all entry_ok es"
  shows "merge_lines (lines (concat (map render_entry es) @ r)) (sec, cfg) =
    merge_lines (lines r) (sec, fold (\<lambda>(k, v) cfg. set_key sec k v cfg) es cfg)"
  using assms
proof (induction es arbitrary: cfg)
  case (Cons e es)
  obtain k v where e: "e = (k, v)" by force
  with Cons.prems have ok: "entry_ok (k, v)" by simp
  then have "newline \<notin> set (k @ '' = '' @ v)" by auto
  then have "lines (concat (map render_entry (e # es)) @ r) =
      strip_cr (k @ '' = '' @ v) # lines (concat (map render_entry es) @ r)"
    using lines_Cons [of "k @ '' = '' @ v"] by (simp add: e)
  then show ?case
    using Cons merge_line_entry [OF ok, of sec cfg] by (simp add: e)
qed simp

lemma merge_sections:
  assumes "list_all section_ok ss"
  shows "map_ok snd (merge_lines (lines (render_ini ss)) (sec0, cfg)) = Ok (apply_sections ss cfg)"
  using assms
proof (induction ss arbitrary: sec0 cfg)
  case Nil
  then show ?case by (simp add: render_ini_def apply_sections_def)
next
  case (Cons s ss)
  obtain sec es where s: "s = (sec, es)" by force
  with Cons.prems have ok: "newline \<notin> set sec" "list_all entry_ok es" by simp_all
  then have "newline \<notin> set (''['' @ sec @ '']'')" by auto
  then have "lines (render_ini (s # ss)) =
      strip_cr (''['' @ sec @ '']'') # lines (concat (map render_entry es) @ render_ini ss)"
    using lines_Cons [of "''['' @ sec @ '']''"] by (simp add: s render_ini_def)
  then show ?case
    using Cons merge_line_section [OF ok(1), of sec0 cfg] merge_entries [OF ok(2)]
    by (simp add: s apply_sections_def)
qed

text \<open>
  Claim C31: a written configuration file is read back. Merging the text of a list of sections and
  entries performs the assignments of the entries in file order, so the last one of a key wins,
  section names in any case, keys and values without the blanks around them.
\<close>

theorem merge_ini_render:
  assumes "list_all section_ok ss"
  shows "merge_ini (render_ini ss) cfg = Ok (apply_sections ss cfg)"
  unfolding merge_ini_def by (rule merge_sections [OF assms])

theorem merge_ini_render_witness:
  "\<forall>cfg. merge_ini (render_ini [(''Network'', [(''no_dns'', ''true''), (''netmask'', ''255.255.0.0'')]),
      (''dns'', [(''mode'', ''DoT'')])]) cfg =
    Ok (cfg\<lparr>no_dns := True, netmask := ipv4_new 255 255 0 0, dns_mode := DoT\<rparr>)"
proof -
  have ip: "ipv4_from_str ''255.255.0.0'' = Some (ipv4_new 255 255 0 0)"
    by (simp add: ipv4_from_str_def read_octet_def is_digit_def digits_value_def digit_value_def)
  have low: "to_lowercase ''Network'' = ''network''" "to_lowercase ''dns'' = ''dns''"
    "to_lowercase ''DoT'' = ''dot''"
    by code_simp+
  show ?thesis
    using merge_ini_render [of "[(''Network'', [(''no_dns'', ''true''), (''netmask'', ''255.255.0.0'')]),
      (''dns'', [(''mode'', ''DoT'')])]"]
    by (simp add: trimmed_def is_space_def apply_sections_def set_key_def low ip parse_dns_mode_def)
qed

section \<open>The command line\<close>

text \<open>The configuration before the file is read.\<close>

definition cli_base :: "cli_args \<Rightarrow> tether_config" where
  "cli_base args =
     \<lparr>no_route = arg_no_route args, no_dns = arg_no_dns args, static_ip = None, gateway = None,
      netmask = ipv4_new 255 255 255 0,
      log_level = (if arg_verbose args then Debug else Info), watch_mode = arg_watch args,
      dns_mode = System, dns_provider = Cloudflare,
      daemon = arg_daemon args, install = arg_install args, uninstall = arg_uninstall args\<rparr>"

definition merged :: "(string option \<Rightarrow> string option) \<Rightarrow> cli_args \<Rightarrow> tether_config" where
  "merged read_config args = (case read_config (arg_config args) of
     None \<Rightarrow> cli_base args
   | Some contents \<Rightarrow> (case merge_ini contents (cli_base args) of Ok cfg \<Rightarrow> cfg | _ \<Rightarrow> cli_base args))"

text \<open>An address option wins over what the file said.\<close>

definition override :: "string option \<Rightarrow> ipv4 option \<Rightarrow> ipv4 option" where
  "override arg from_file = (case arg of Some s \<Rightarrow> ipv4_from_str s | None \<Rightarrow> from_file)"

definition bad_address :: "string option \<Rightarrow> bool" where
  "bad_address arg \<longleftrightarrow> (case arg of Some s \<Rightarrow> ipv4_from_str s = None | None \<Rightarrow> False)"

lemma parse_unwrap_cli:
  "parse_unwrap ''255.255.255.0'' = Ok (ipv4_new 255 255 255 0)"
  "parse_unwrap ''192.168.42.129'' = Ok (ipv4_new 192 168 42 129)"
  by (simp_all add: parse_unwrap_def ipv4_from_str_def read_octet_def is_digit_def digits_value_def
      digit_value_def)

lemma from_cli_form:
  "from_cli read_config args =
    (let m = merged read_config args;
         ip = override (arg_static_ip args) (static_ip m); gw = override (arg_gateway args) (gateway m) in
     if bad_address (arg_static_ip args)
     then Err (Config_Error (''invalid IP: '' @ the (arg_static_ip args)))
     else if bad_address (arg_gateway args)
     then Err (Config_Error (''invalid gateway: '' @ the (arg_gateway args)))
     else if bad_address (arg_netmask args)
     then Err (Config_Error (''invalid netmask: '' @ the (arg_netmask args)))
     else Ok (m\<lparr>static_ip := ip,
                gateway := (if ip \<noteq> None \<and> gw = None then Some (ipv4_new 192 168 42 129) else gw),
                netmask := the (override (arg_netmask args) (Some (netmask m))),
                dns_mode := parse_dns_mode (arg_dns_mode args),
                dns_provider := parse_dns_provider (arg_dns_provider args)\<rparr>))"
proof -
  have base: "and_then config_default (\<lambda>cfg.
      let cfg = cfg\<lparr>log_level := (if arg_verbose args then Debug else Info), watch_mode := arg_watch args,
         daemon := arg_daemon args, install := arg_install args, uninstall := arg_uninstall args\<rparr>;
         cfg = (if arg_no_route args then cfg\<lparr>no_route := True\<rparr> else cfg);
         cfg = (if arg_no_dns args then cfg\<lparr>no_dns := True\<rparr> else cfg) in f cfg) = f (cli_base args)" for f
    by (simp add: config_default_def parse_unwrap_cli Let_def cli_base_def)
  have content: "(case read_config (arg_config args) of
      Some contents \<Rightarrow> merge_ini contents (cli_base args) | None \<Rightarrow> Ok (cli_base args)) =
      Ok (merged read_config args)"
  proof (cases "read_config (arg_config args)")
    case (Some c)
    then show ?thesis using merge_ini_ok [of c "cli_base args"] by (auto simp: merged_def)
  qed (simp add: merged_def)
  show ?thesis
    unfolding from_cli_def base content
    by (cases "arg_static_ip args"; cases "arg_gateway args"; cases "arg_netmask args")
      (auto simp: parse_arg_def override_def bad_address_def parse_unwrap_cli Let_def
        split: option.splits)
qed

text \<open>
  Claim C32: what the program runs with. An address option that does not parse is the configuration
  error of the first such option; otherwise the addresses are those of the command line where given
  and those of the file elsewhere, a static address without a gateway gets 192.168.42.129, the
  DNS mode and provider are the command line's whatever the file says, and everything else is what
  merging the file into the command line gave.
\<close>

theorem from_cli_exact:
  "from_cli read_config args =
    (let m = merged read_config args;
         ip = override (arg_static_ip args) (static_ip m); gw = override (arg_gateway args) (gateway m) in
     if bad_address (arg_static_ip args)
     then Err (Config_Error (''invalid IP: '' @ the (arg_static_ip args)))
     else if bad_address (arg_gateway args)
     then Err (Config_Error (''invalid gateway: '' @ the (arg_gateway args)))
     else if bad_address (arg_netmask args)
     then Err (Config_Error (''invalid netmask: '' @ the (arg_netmask args)))
     else Ok (m\<lparr>static_ip := ip,
                gateway := (if ip \<noteq> None \<and> gw = None then Some (ipv4_new 192 168 42 129) else gw),
                netmask := the (override (arg_netmask args) (Some (netmask m))),
                dns_mode := parse_dns_mode (arg_dns_mode args),
                dns_provider := parse_dns_provider (arg_dns_provider args)\<rparr>))"
  by (rule from_cli_form)

end
