(* ===== verification/Dns_Proxy.thy ===== *)
theory Dns_Proxy
  imports Inet_Checksum Config
begin

text \<open>
  \<^verbatim>\<open>src/dns_proxy.rs\<close>: recognising a DNS query among the packets of the tunnel, building
  the packet that carries the answer back, the providers' tables and the framing of DNS over
  TLS. The TLS stream and the HTTP agent are parameters; both report errors as text.
\<close>

section \<open>Queries and replies\<close>

definition is_dns_to_gateway :: "u8 list \<Rightarrow> ipv4 \<Rightarrow> ipv4 \<Rightarrow> nat option outcome" where
  "is_dns_to_gateway utun_pkt our_ip gateway_ip =
     (if length utun_pkt < 4 + 20 + 8 + 12 then Ok None
      else
        and_then (and_then (subslice_to utun_pkt 4) u32_of_be_slice) (\<lambda>af.
        if af \<noteq> 2 then Ok None
        else
          and_then (subslice_from utun_pkt 4) (\<lambda>ip.
          and_then (index ip 0) (\<lambda>ver_ihl.
          if ver_ihl AND 0xF0 \<noteq> 0x40 then Ok None
          else
            let ihl = unat ((ver_ihl AND 0x0F) * 4) in
            if length ip < ihl + 8 then Ok None
            else
              and_then (index ip 9) (\<lambda>proto.
              if proto \<noteq> 17 then Ok None
              else
                and_then (index ip 12) (\<lambda>a. and_then (index ip 13) (\<lambda>b.
                and_then (index ip 14) (\<lambda>c. and_then (index ip 15) (\<lambda>d.
                if u32_from_be a b c d \<noteq> our_ip then Ok None
                else
                  and_then (subslice_from ip ihl) (\<lambda>udp.
                  and_then (index udp 2) (\<lambda>p0. and_then (index udp 3) (\<lambda>p1.
                  if u16_from_be p0 p1 \<noteq> 53 then Ok None
                  else
                    let dns_start = 4 + ihl + 8; dns_end = length utun_pkt in
                    Ok (Some (dns_end - dns_start))))))))))))))"

text \<open>
  \<open>build_reply\<close>: the vector \<open>out\<close> grows piece by piece; \<open>(x >> 8) as u8\<close> and \<open>x as u8\<close> of a
  length keep its low 16 bits only.
\<close>

definition build_reply :: "u8 list \<Rightarrow> u8 list \<Rightarrow> u8 list outcome" where
  "build_reply orig dns_resp =
     and_then (subslice_from orig 4) (\<lambda>orig_ip.
     and_then (index orig_ip 0) (\<lambda>ver_ihl.
     let ihl = unat ((ver_ihl AND 0x0F) * 4);
         udp_start = 4 + ihl;
         ip_total = 20 + 8 + length dns_resp in
     and_then (subslice_to orig 4) (\<lambda>family.
     and_then (subslice orig_ip 16 20) (\<lambda>src.
     and_then (subslice orig_ip 12 16) (\<lambda>dst.
     let out = family @ [0x45] @ [0x00] @ [of_nat (ip_total div 256)] @ [of_nat ip_total] @
               [0x00] @ [0x00] @ [0x00] @ [0x00] @ [64] @ [17] @ replicate 2 0 @ src @ dst;
         ip_hdr_start = length out - 20 in
     and_then (subslice out ip_hdr_start (ip_hdr_start + 20)) (\<lambda>hdr.
     let csum = ip_checksum hdr in
     and_then (store out (ip_hdr_start + 10) (ucast (drop_bit 8 csum))) (\<lambda>out.
     and_then (store out (ip_hdr_start + 11) (ucast csum)) (\<lambda>out.
     and_then (subslice_from orig udp_start) (\<lambda>orig_udp.
     and_then (subslice orig_udp 2 4) (\<lambda>sport.
     and_then (subslice orig_udp 0 2) (\<lambda>dport.
     let udp_len = of_nat (8 + length dns_resp) :: u16 in
     Ok (out @ sport @ dport @ [ucast (drop_bit 8 udp_len)] @ [ucast udp_len] @
         [0x00] @ [0x00] @ dns_resp))))))))))))"

section \<open>Providers\<close>

fun doh_url :: "dns_provider \<Rightarrow> string" where
  "doh_url Cloudflare = ''https://cloudflare-dns.com/dns-query''"
| "doh_url Google = ''https://dns.google/dns-query''"
| "doh_url Quad9 = ''https://dns.quad9.net/dns-query''"

fun dot_addr :: "dns_provider \<Rightarrow> string" where
  "dot_addr Cloudflare = ''1.1.1.1:853''"
| "dot_addr Google = ''8.8.8.8:853''"
| "dot_addr Quad9 = ''9.9.9.9:853''"

fun dot_hostname :: "dns_provider \<Rightarrow> string" where
  "dot_hostname Cloudflare = ''cloudflare-dns.com''"
| "dot_hostname Google = ''dns.google''"
| "dot_hostname Quad9 = ''dns.quad9.net''"

text \<open>\<open>split_once\<close> and \<open>parse::<u16>\<close> (an optional plus sign, decimal digits, no overflow).\<close>

definition split_once :: "char \<Rightarrow> string \<Rightarrow> (string \<times> string) option" where
  "split_once x s = (case find_char x s of
     None \<Rightarrow> None | Some i \<Rightarrow> Some (take i s, drop (i + 1) s))"

definition parse_u16 :: "string \<Rightarrow> u16 option" where
  "parse_u16 s = (let d = (if s \<noteq> [] \<and> hd s = CHR ''+'' then tl s else s) in
     if d = [] \<or> \<not> list_all is_digit d \<or> 65535 < digits_value d then None
     else Some (of_nat (digits_value d)))"

definition static_dns_resolver :: "string \<Rightarrow> (ipv4 \<times> u16) list outcome" where
  "static_dns_resolver netloc =
     (let (host, port) = (case split_once (CHR '':'') netloc of
            Some (h, p) \<Rightarrow> (h, case parse_u16 p of Some n \<Rightarrow> n | None \<Rightarrow> 443)
          | None \<Rightarrow> (netloc, 443)) in
      and_then
        (if host = ''cloudflare-dns.com'' then Ok (ipv4_new 1 1 1 1)
         else if host = ''dns.google'' then Ok (ipv4_new 8 8 8 8)
         else if host = ''dns.quad9.net'' then Ok (ipv4_new 9 9 9 9)
         else Err (Io (''static resolver: unknown host '' @ netloc)))
        (\<lambda>ip. Ok [(ip, port)]))"

section \<open>DNS over TLS and over HTTPS\<close>

text \<open>Calls with text errors: \<open>Result<T, String>\<close>.\<close>

type_synonym ('w, 'a) call = "'w \<Rightarrow> (string + 'a) \<times> 'w"

definition call_then :: "('w, 'a) call \<Rightarrow> ('a \<Rightarrow> ('w, 'b) call) \<Rightarrow> ('w, 'b) call" where
  "call_then m f w = (case m w of (Inl e, w') \<Rightarrow> (Inl e, w') | (Inr x, w') \<Rightarrow> f x w')"

text \<open>\<open>.map_err(|e| format!("...: {e}"))\<close>.\<close>

definition map_err :: "string \<Rightarrow> ('w, 'a) call \<Rightarrow> ('w, 'a) call" where
  "map_err what m w = (case m w of (Inl e, w') \<Rightarrow> (Inl (what @ '': '' @ e), w') | r \<Rightarrow> r)"

text \<open>A TLS stream: \<open>write_all\<close> and \<open>read_exact\<close>.\<close>

record 'w tls_stream =
  write_all :: "u8 list \<Rightarrow> ('w, unit) call"
  read_exact :: "nat \<Rightarrow> ('w, u8 list) call"

definition dot_query_inner :: "'w tls_stream \<Rightarrow> u8 list \<Rightarrow> ('w, u8 list) call" where
  "dot_query_inner tls query =
     (let len_be = u16_to_be_bytes (of_nat (length query)) in
      call_then (map_err ''write'' (write_all tls len_be)) (\<lambda>_.
      call_then (map_err ''write'' (write_all tls query)) (\<lambda>_.
      call_then (map_err ''read'' (read_exact tls 2)) (\<lambda>len_buf.
      let resp_len = unat (u16_from_be (len_buf ! 0) (len_buf ! 1)) in
      if resp_len > 4096 then (\<lambda>w. (Inl ''response too large'', w))
      else map_err ''read'' (read_exact tls resp_len)))))"

text \<open>
  What the HTTP agent answers a POST with: a response whose body reads to the end or not, a
  status that is an error, or another failure.
\<close>

datatype http_result = Response "string + u8 list" | Status nat string | Failure string

type_synonym 'w agent = "string \<Rightarrow> (string \<times> string) list \<Rightarrow> u8 list \<Rightarrow> 'w \<Rightarrow> http_result \<times> 'w"

definition doh_query_with_agent :: "'w agent \<Rightarrow> dns_provider \<Rightarrow> u8 list \<Rightarrow> ('w, u8 list) call" where
  "doh_query_with_agent post provider query w =
     (case post (doh_url provider)
        [(''Content-Type'', ''application/dns-message''), (''Accept'', ''application/dns-message'')]
        query w of (r, w') \<Rightarrow>
      (case r of
         Response (Inr body) \<Rightarrow> (Inr body, w')
       | Response (Inl e) \<Rightarrow> (Inl (''read body: '' @ e), w')
       | Status code text \<Rightarrow> (Inl (if code = 503 then ''server 503'' else text), w')
       | Failure text \<Rightarrow> (Inl text, w')))"

definition doh_resolve :: "'w agent \<Rightarrow> dns_provider \<Rightarrow> u8 list \<Rightarrow> 'w \<Rightarrow> u8 list option \<times> 'w" where
  "doh_resolve post provider query w =
     (case doh_query_with_agent post provider query w of
        (Inr resp, w') \<Rightarrow> (Some resp, w') | (Inl e, w') \<Rightarrow> (None, w'))"

section \<open>Connections\<close>

text \<open>
  The sockets and the TLS library; timeouts are left out. An address is parsed as far as the
  constants of \<open>dot_addr\<close> need it: IPv4 and a port.
\<close>

record ('t, 'w) net_calls =
  connect_timeout :: "ipv4 \<times> u16 \<Rightarrow> ('w, 't) call"
  set_read_timeout :: "'t \<Rightarrow> ('w, unit) call"
  set_write_timeout :: "'t \<Rightarrow> ('w, unit) call"
  new_connector :: "('w, unit) call"
  tls_connect :: "string \<Rightarrow> 't \<Rightarrow> ('w, 'w tls_stream) call"

definition parse_socket_addr :: "string \<Rightarrow> (ipv4 \<times> u16) option" where
  "parse_socket_addr s = (case split_once (CHR '':'') s of
     Some (h, p) \<Rightarrow> (case (ipv4_from_str h, parse_u16 p) of (Some ip, Some n) \<Rightarrow> Some (ip, n) | _ \<Rightarrow> None)
   | None \<Rightarrow> None)"

definition create_dot_conn :: "('t, 'w) net_calls \<Rightarrow> dns_provider \<Rightarrow> ('w, 'w tls_stream) call" where
  "create_dot_conn net provider =
     (let addr = dot_addr provider; hostname = dot_hostname provider in
      call_then (map_err ''parse'' (\<lambda>w. case parse_socket_addr addr of
          Some a \<Rightarrow> (Inr a, w) | None \<Rightarrow> (Inl ''invalid socket address syntax'', w))) (\<lambda>a.
      call_then (map_err ''tcp connect'' (connect_timeout net a)) (\<lambda>stream.
      call_then (map_err ''set_read_to'' (set_read_timeout net stream)) (\<lambda>_.
      call_then (map_err ''set_write_to'' (set_write_timeout net stream)) (\<lambda>_.
      call_then (map_err ''tls init'' (new_connector net)) (\<lambda>_.
      map_err ''tls handshake'' (tls_connect net hostname stream)))))))"

text \<open>The agent is what \<open>AgentBuilder\<close> makes of the resolver.\<close>

definition create_doh_agent ::
  "('t, 'w) net_calls \<Rightarrow> ((string \<Rightarrow> (ipv4 \<times> u16) list outcome) \<Rightarrow> 'w agent) \<Rightarrow> dns_provider \<Rightarrow> ('w, 'w agent) call" where
  "create_doh_agent net build provider =
     call_then (map_err ''tls init'' (new_connector net)) (\<lambda>_ w. (Inr (build static_dns_resolver), w))"

text \<open>A DoT connection goes to the provider's own address, at the port of DNS over TLS.\<close>

definition dot_ip :: "dns_provider \<Rightarrow> ipv4" where
  "dot_ip provider = (case provider of
     Cloudflare \<Rightarrow> ipv4_new 1 1 1 1 | Google \<Rightarrow> ipv4_new 8 8 8 8 | Quad9 \<Rightarrow> ipv4_new 9 9 9 9)"

section \<open>Queries, on the wire\<close>

text \<open>
  A DNS query that leaves this host through the tunnel, read off the bytes of the packet:
  IPv4 by family and version, UDP, our source address, destination port 53. \<open>ihl_of\<close> is the
  length of its IP header.
\<close>

definition ihl_of :: "u8 list \<Rightarrow> nat" where
  "ihl_of pkt = 4 * unat (pkt ! 4 AND 0x0F)"

definition is_query :: "ipv4 \<Rightarrow> u8 list \<Rightarrow> bool" where
  "is_query our_ip pkt \<longleftrightarrow>
     44 \<le> length pkt \<and> take 4 pkt = [0, 0, 0, 2] \<and> pkt ! 4 AND 0xF0 = 0x40 \<and>
     12 + ihl_of pkt \<le> length pkt \<and> pkt ! 13 = 17 \<and>
     take 4 (drop 16 pkt) = u32_to_be_bytes our_ip \<and>
     take 2 (drop (6 + ihl_of pkt) pkt) = [0, 53]"

lemma low_nibble: "unat ((v AND 0x0F) * 4 :: u8) = 4 * unat (v AND 0x0F)"
proof -
  have "v AND 0x0F \<le> 0x0F" by (rule word_and_le1)
  then have "unat (v AND 0x0F) \<le> 15" by (simp add: word_le_nat_alt)
  then show ?thesis by (simp add: unat_word_ariths)
qed

lemma interception_form:
  "is_dns_to_gateway pkt our_ip gateway_ip =
     Ok (if is_query our_ip pkt then Some (length pkt - (12 + ihl_of pkt)) else None)"
proof (cases "length pkt < 44")
  case False
  let ?h = "ihl_of pkt"
  have af: "u32_of_be_slice (take 4 pkt) = Ok (u32_from_be (pkt ! 0) (pkt ! 1) (pkt ! 2) (pkt ! 3))"
    using False by (simp add: take_4 u32_of_be_slice_def)
  have two: "u32_to_be_bytes 2 = [0, 0, 0, 2]" "u16_to_be_bytes 53 = [0, 53]"
    by (simp_all add: u32_to_be_bytes_def u16_to_be_bytes_def)
  show ?thesis
    using False take_drop_4 [of 16 pkt] take_drop_2 [of "6 + ?h" pkt]
    by (simp add: is_dns_to_gateway_def is_query_def af low_nibble flip: ihl_of_def)
      (auto simp: u32_from_be_eq_iff u16_from_be_eq_iff two take_4 Let_def ihl_of_def)
qed (simp add: is_dns_to_gateway_def is_query_def)

text \<open>
  Claim C23: interception is exact. On every packet, of any length and content, the test neither
  panics nor reads outside; it accepts exactly the IPv4/UDP packets from our address to port 53, to
  whatever server, and gives the length of what follows the UDP header.
\<close>

theorem dns_interception_exact:
  "is_dns_to_gateway pkt our_ip gateway_ip =
     Ok (if is_query our_ip pkt then Some (length pkt - (12 + ihl_of pkt)) else None)"
  by (rule interception_form)

section \<open>Replies, on the wire\<close>

definition reply_ip_header :: "u8 list \<Rightarrow> nat \<Rightarrow> u8 list" where
  "reply_ip_header pkt n =
     (let a = [0x45, 0, of_nat ((28 + n) div 256), of_nat (28 + n), 0, 0, 0, 0, 64, 17];
          b = take 4 (drop 20 pkt) @ take 4 (drop 16 pkt) in
      a @ u16_to_be_bytes (ip_checksum (a @ [0, 0] @ b)) @ b)"

definition reply_wire :: "u8 list \<Rightarrow> u8 list \<Rightarrow> u8 list" where
  "reply_wire pkt resp =
     take 4 pkt @ reply_ip_header pkt (length resp) @
     take 2 (drop (6 + ihl_of pkt) pkt) @ take 2 (drop (4 + ihl_of pkt) pkt) @
     u16_to_be_bytes (of_nat (8 + length resp)) @ [0, 0] @ resp"

lemma length_reply_header:
  "28 \<le> length pkt \<Longrightarrow> length (reply_ip_header pkt n) = 20"
  by (simp add: reply_ip_header_def Let_def)

lemma reply_header_verifies: "24 \<le> length pkt \<Longrightarrow> verifies (reply_ip_header pkt n)"
  using dns_ck.filled_verifies [of "[0x45, 0, of_nat ((28 + n) div 256), of_nat (28 + n), 0, 0, 0, 0, 64, 17]"
      "take 4 (drop 20 pkt) @ take 4 (drop 16 pkt)"]
  by (simp add: reply_ip_header_def Let_def)

lemma build_reply_ok:
  assumes "24 \<le> length pkt" and "8 + ihl_of pkt \<le> length pkt"
  shows "build_reply pkt resp = Ok (reply_wire pkt resp)"
proof -
  let ?n = "length resp"
  let ?a = "[0x45, 0, of_nat ((28 + ?n) div 256), of_nat (28 + ?n), 0, 0, 0, 0, 64, 17] :: u8 list"
  let ?b = "take 4 (drop 20 pkt) @ take 4 (drop 16 pkt)"
  let ?f = "take 4 pkt"
  have len: "length ?f = 4" "length ?b = 8" using assms(1) by simp_all
  have ihl: "unat ((pkt ! 4 AND 0x0F) * 4) = ihl_of pkt" by (simp add: low_nibble ihl_of_def)
  have src: "subslice (drop 4 pkt) 16 20 = Ok (take 4 (drop 20 pkt))"
    "subslice (drop 4 pkt) 12 16 = Ok (take 4 (drop 16 pkt))"
    using assms(1) by simp_all
  have up: "subslice (drop (4 + ihl_of pkt) pkt) 2 4 = Ok (take 2 (drop (6 + ihl_of pkt) pkt))"
    "subslice (drop (4 + ihl_of pkt) pkt) 0 2 = Ok (take 2 (drop (4 + ihl_of pkt) pkt))"
    using assms(2) by (simp_all add: add.commute)
  have two: "replicate 2 (0 :: u8) = [0, 0]" by (simp add: numeral_2_eq_2)
  show ?thesis
    using assms len
    by (simp add: build_reply_def two ihl src up Let_def list_update_append reply_wire_def reply_ip_header_def)
      (simp add: u16_to_be_bytes_def)
qed

lemma length_fields:
  assumes "n < 65536"
  shows "256 * unat (of_nat (n div 256) :: u8) + unat (of_nat n :: u8) = n"
    and "256 * unat (u16_to_be_bytes (of_nat n) ! 0) + unat (u16_to_be_bytes (of_nat n) ! 1) = n"
proof -
  have "n div 256 < 256" using assms by (simp add: less_mult_imp_div_less)
  then have "unat (of_nat (n div 256) :: u8) = n div 256" by (simp add: unat_of_nat)
  moreover have "unat (of_nat n :: u8) = n mod 256" by (simp add: unat_of_nat)
  ultimately show "256 * unat (of_nat (n div 256) :: u8) + unat (of_nat n :: u8) = n" by simp
  have "unat (of_nat n :: u16) = n" using assms by (simp add: unat_of_nat)
  then show "256 * unat (u16_to_be_bytes (of_nat n) ! 0) + unat (u16_to_be_bytes (of_nat n) ! 1) = n"
    using unat_u16_from_be [of "ucast (drop_bit 8 (of_nat n :: u16))" "ucast (of_nat n :: u16)"]
    by (simp add: u16_to_be_bytes_def)
qed

lemma reply_ip_header_nth:
  assumes "24 \<le> length pkt"
  shows "reply_ip_header pkt n ! 2 = of_nat ((28 + n) div 256)" "reply_ip_header pkt n ! 3 = of_nat (28 + n)"
    "drop 12 (reply_ip_header pkt n) = take 4 (drop 20 pkt) @ take 4 (drop 16 pkt)"
  by (simp_all add: reply_ip_header_def Let_def nth_append)

text \<open>
  Claim C24: the answer goes back where the query came from. For an intercepted query the reply is
  built without a panic: same family, a header that verifies, the queried server as source and our
  address as destination, source port 53, the query's own port as destination, the resolver's bytes
  unchanged as payload; its two length fields are right up to 65507 bytes of payload.
\<close>

theorem dns_reply_exact:
  assumes "is_query our_ip pkt"
  shows "\<exists>out. build_reply pkt resp = Ok out \<and> take 4 out = take 4 pkt \<and>
    verifies (take 20 (drop 4 out)) \<and>
    take 4 (drop 16 out) = take 4 (drop 20 pkt) \<and> take 4 (drop 20 out) = u32_to_be_bytes our_ip \<and>
    take 2 (drop 24 out) = [0, 53] \<and> take 2 (drop 26 out) = take 2 (drop (4 + ihl_of pkt) pkt) \<and>
    drop 32 out = resp \<and>
    (length resp \<le> 65507 \<longrightarrow>
       256 * unat (out ! 6) + unat (out ! 7) = length out - 4 \<and>
       256 * unat (out ! 28) + unat (out ! 29) = length out - 24)"
proof -
  let ?out = "reply_wire pkt resp" and ?h = "reply_ip_header pkt (length resp)"
  have len: "44 \<le> length pkt" "12 + ihl_of pkt \<le> length pkt"
    and our: "take 4 (drop 16 pkt) = u32_to_be_bytes our_ip"
    and port: "take 2 (drop (6 + ihl_of pkt) pkt) = [0, 53]"
    using assms by (simp_all add: is_query_def)
  have h: "length ?h = 20" "length (take 4 pkt) = 4" using len by (simp_all add: length_reply_header)
  let ?sp = "take 2 (drop (4 + ihl_of pkt) pkt)"
  have sp: "length ?sp = 2" using len by simp
  let ?udp = "u16_to_be_bytes (of_nat (8 + length resp))"
  have out: "?out = (take 4 pkt @ ?h) @ [0, 53] @ ?sp @ ?udp @ [0, 0] @ resp"
    by (simp add: reply_wire_def port)
  have front: "take 20 (drop 4 ?out) = ?h" "drop 24 ?out = [0, 53] @ ?sp @ ?udp @ [0, 0] @ resp"
    using h by (simp_all add: out)
  have "take 4 (drop 16 ?out) = take 4 (drop 12 ?h)" "take 4 (drop 20 ?out) = take 4 (drop 16 ?h)"
    using h by (simp_all add: out)
  moreover have "take 4 (drop 12 ?h) = take 4 (drop 20 pkt)" "take 4 (drop 4 (drop 12 ?h)) = u32_to_be_bytes our_ip"
    using len our unfolding reply_ip_header_nth(3) [OF order.trans [OF _ len(1)], simplified] by simp_all
  moreover have "?out ! 6 = ?h ! 2" "?out ! 7 = ?h ! 3" "?out ! 28 = ?udp ! 0" "?out ! 29 = ?udp ! 1"
    using h sp by (simp_all add: out nth_append)
  moreover have "length ?out = 32 + length resp" using h sp by (simp add: out)
  ultimately show ?thesis
    using build_reply_ok [of pkt resp] reply_header_verifies [of pkt] front len h sp
      reply_ip_header_nth(1,2) [of pkt "length resp"]
      length_fields(1) [of "28 + length resp"] length_fields(2) [of "8 + length resp"]
    by (intro exI [of _ ?out]) (simp add: out)
qed

definition sample_query :: "u8 list" where
  "sample_query =
     [0, 0, 0, 2] @ [0x45, 0, 0, 40, 0, 0, 0, 0, 64, 17, 0, 0, 10, 0, 0, 2, 8, 8, 8, 8] @
     [0x30, 0x39, 0, 53, 0, 20, 0, 0] @ [0xAB, 0xCD, 1, 0, 0, 1, 0, 0, 0, 0, 0, 0]"

lemma sample_is_query: "is_query (ipv4_new 10 0 0 2) sample_query"
  by (simp add: is_query_def sample_query_def ihl_of_def ipv4_new_def u32_bytes_inverse)

theorem dns_reply_exact_witness:
  "\<exists>out. build_reply sample_query [1, 2, 3] = Ok out \<and> drop 32 out = [1, 2, 3] \<and>
     take 2 (drop 26 out) = [0x30, 0x39] \<and> take 4 (drop 16 out) = [8, 8, 8, 8]"
  using dns_reply_exact [OF sample_is_query, of "[1, 2, 3]"]
  by (auto simp: sample_query_def ihl_of_def)

section \<open>The providers' tables agree\<close>

text \<open>The port DNS over TLS and HTTPS connect to by default, and the network location of a URL.\<close>

definition https_netloc :: "dns_provider \<Rightarrow> string" where
  "https_netloc p = dot_hostname p @ '':443''"

lemma digit_strings: "parse_u16 ''443'' = Some 443" "parse_u16 ''853'' = Some 853"
  by (simp_all add: parse_u16_def is_digit_def digits_value_def digit_value_def)

lemma dot_addr_parsed: "parse_socket_addr (dot_addr provider) = Some (dot_ip provider, 853)"
proof -
  have "dot_addr provider = show_ip (dot_ip provider) @ CHR '':'' # ''853''"
    by (cases provider) (simp_all add: dot_ip_def show_ip_form show_nat.simps digit_char_def)
  moreover have "CHR '':'' \<notin> set (show_ip (dot_ip provider))"
    by (cases provider) (simp_all add: dot_ip_def show_ip_form show_nat.simps digit_char_def)
  moreover have "ipv4_from_str (show_ip (dot_ip provider)) = Some (dot_ip provider)"
    by (cases provider) (simp_all add: dot_ip_def ipv4_from_show)
  ultimately show ?thesis
    by (simp add: parse_socket_addr_def split_once_def find_char_first digit_strings)
qed

text \<open>
  No provider is resolved through the network. For every provider the URL that DNS over
  HTTPS posts to names the host whose certificate DNS over TLS expects, the static resolver knows that
  host, with or without a port, and its address is the one DNS over TLS connects to; hosts that are
  not a provider's are refused, so a redirect elsewhere cannot be followed.
\<close>

theorem providers_resolve_statically:
  "(\<exists>ip. doh_url p = ''https://'' @ dot_hostname p @ ''/dns-query'' \<and>
     static_dns_resolver (dot_hostname p) = Ok [(ip, 443)] \<and>
     static_dns_resolver (https_netloc p) = Ok [(ip, 443)] \<and>
     dot_addr p = show_ip ip @ '':853'') \<and>
   (\<forall>host. host \<notin> range dot_hostname \<and> CHR '':'' \<notin> set host \<longrightarrow>
     static_dns_resolver host = Err (Io (''static resolver: unknown host '' @ host)))"
proof (intro conjI allI impI)
  have small: "show_nat (Suc 0) = ''1''" "show_nat 8 = ''8''" "show_nat 9 = ''9''"
    by (simp_all add: show_nat.simps digit_char_def)
  show "\<exists>ip. doh_url p = ''https://'' @ dot_hostname p @ ''/dns-query'' \<and>
     static_dns_resolver (dot_hostname p) = Ok [(ip, 443)] \<and>
     static_dns_resolver (https_netloc p) = Ok [(ip, 443)] \<and>
     dot_addr p = show_ip ip @ '':853''"
    by (cases p) (auto simp: static_dns_resolver_def split_once_def https_netloc_def digit_strings
        show_ip_form small intro!: exI [of _ "ipv4_new 1 1 1 1"] exI [of _ "ipv4_new 8 8 8 8"]
        exI [of _ "ipv4_new 9 9 9 9"])
  fix host assume h: "host \<notin> range dot_hostname \<and> CHR '':'' \<notin> set host"
  then have "split_once (CHR '':'') host = None"
  proof -
    have "find_char x s = None" if "x \<notin> set s" for x and s :: string
      using that by (induction s) auto
    with h show ?thesis by (simp add: split_once_def)
  qed
  moreover have "host \<noteq> ''cloudflare-dns.com''" "host \<noteq> ''dns.google''" "host \<noteq> ''dns.quad9.net''"
    using h by (metis dot_hostname.simps rangeI)+
  ultimately show "static_dns_resolver host = Err (Io (''static resolver: unknown host '' @ host))"
    by (simp add: static_dns_resolver_def)
qed

theorem providers_resolve_statically_witness:
  "static_dns_resolver ''example.com'' = Err (Io (''static resolver: unknown host '' @ ''example.com''))"
proof -
  have "''example.com'' \<notin> range dot_hostname"
  proof
    assume "''example.com'' \<in> range dot_hostname"
    then obtain p where "''example.com'' = dot_hostname p" by blast
    then show False by (cases p) simp_all
  qed
  then show ?thesis using providers_resolve_statically by simp
qed

section \<open>The framing of DNS over TLS\<close>

text \<open>
  A stream whose peer's bytes are given: what was written is recorded, reading takes from the
  front and fails when there are too few bytes.
\<close>

record wire =
  written :: "u8 list"
  incoming :: "u8 list"

definition scripted_tls :: "wire tls_stream" where
  "scripted_tls =
     \<lparr>write_all = (\<lambda>d w. (Inr (), w\<lparr>written := written w @ d\<rparr>)),
      read_exact = (\<lambda>n w. if n \<le> length (incoming w)
         then (Inr (take n (incoming w)), w\<lparr>incoming := drop n (incoming w)\<rparr>)
         else (Inl ''unexpected end of file'', w))\<rparr>"

definition dot_frame :: "u8 list \<Rightarrow> u8 list" where
  "dot_frame m = u16_to_be_bytes (of_nat (length m)) @ m"

fun dot_queries :: "'w tls_stream \<Rightarrow> u8 list list \<Rightarrow> ('w, u8 list list) call" where
  "dot_queries tls [] w = (Inr [], w)"
| "dot_queries tls (q # qs) w =
     call_then (dot_query_inner tls q) (\<lambda>r. call_then (dot_queries tls qs) (\<lambda>rs w. (Inr (r # rs), w))) w"

lemma dot_frame_length:
  assumes "length m \<le> 4096"
  shows "unat (u16_from_be (u16_to_be_bytes (of_nat (length m)) ! 0) (u16_to_be_bytes (of_nat (length m)) ! 1)) =
    length m"
proof -
  have "length m < 65536" using assms by simp
  from length_fields(2) [OF this] show ?thesis by (simp add: unat_u16_from_be)
qed

lemma dot_query_frame:
  assumes "incoming w = dot_frame resp @ rest" and "length resp \<le> 4096"
  shows "dot_query_inner scripted_tls query w =
    (Inr resp, w\<lparr>written := written w @ dot_frame query, incoming := rest\<rparr>)"
proof -
  let ?l = "u16_to_be_bytes (of_nat (length resp))"
  have l: "take 2 (?l @ resp @ rest) = ?l" "drop 2 (?l @ resp @ rest) = resp @ rest" by simp_all
  show ?thesis
    using assms dot_frame_length [OF assms(2)] l
    by (simp add: dot_query_inner_def scripted_tls_def call_then_def map_err_def dot_frame_def Let_def)
qed

text \<open>
  Claim C36: framing over TLS. Over one connection any number of queries get their own answers: with
  the framed responses of at most 4096 bytes waiting on the stream, each query is written as its
  length and its bytes, its response is returned whole, and nothing of the next response is read.
\<close>

theorem dot_pipeline:
  assumes "list_all (\<lambda>m. length m \<le> 4096) resps" and "length queries = length resps"
    and "incoming w = concat (map dot_frame resps) @ rest"
  shows "dot_queries scripted_tls queries w =
    (Inr resps, w\<lparr>written := written w @ concat (map dot_frame queries), incoming := rest\<rparr>)"
  using assms
proof (induction queries arbitrary: resps w)
  case (Cons q qs)
  then obtain r rs where resps: "resps = r # rs" by (cases resps) auto
  show ?case
    using Cons.prems Cons.IH [of rs "w\<lparr>written := written w @ dot_frame q,
        incoming := concat (map dot_frame rs) @ rest\<rparr>"] dot_query_frame [of w r "concat (map dot_frame rs) @ rest" q]
    by (simp add: resps call_then_def)
qed simp

theorem dot_pipeline_witness:
  "dot_queries scripted_tls [[1, 2], [3]] \<lparr>written = [], incoming = [0, 1, 9, 0, 0]\<rparr> =
     (Inr [[9], []], \<lparr>written = [0, 2, 1, 2, 0, 1, 3], incoming = []\<rparr>)"
  using dot_pipeline [of "[[9], []]" "[[1, 2], [3]]" "\<lparr>written = [], incoming = [0, 1, 9, 0, 0]\<rparr>" "[]"]
  by (simp add: dot_frame_def u16_to_be_bytes_def)

text \<open>A response that announces more than 4096 bytes is refused before its body is read.\<close>

lemma dot_query_too_large:
  assumes "incoming w = u16_to_be_bytes n @ rest" and "4096 < unat n"
  shows "dot_query_inner scripted_tls query w =
    (Inl ''response too large'', w\<lparr>written := written w @ dot_frame query, incoming := rest\<rparr>)"
proof -
  have "take 2 (u16_to_be_bytes n @ rest) = u16_to_be_bytes n" by simp
  moreover have "u16_from_be (u16_to_be_bytes n ! 0) (u16_to_be_bytes n ! 1) = n"
    by (simp add: u16_to_be_bytes_def)
  ultimately show ?thesis
    using assms by (simp add: dot_query_inner_def scripted_tls_def call_then_def map_err_def
        dot_frame_def Let_def)
qed

end
