(* ===== verification/Tx_Path.thy ===== *)
theory Tx_Path
  imports Proto_Rndis Frame Dns_Proxy Utun
begin

text \<open>
  The TX thread of \<^verbatim>\<open>src/main.rs\<close>: it reads packets from the tunnel, hands DNS queries to the
  resolver thread, and puts every other packet, translated and wrapped, into the channel of the
  I/O thread. The shared variables it reads (flags, gateway address) and whether its channels
  still have a receiver are what it sees at each packet, a \<open>tx_seen\<close>: each is read once per packet,
  so every interleaving with the other threads is a choice of these values.
\<close>

section \<open>One packet\<close>

record tx_state =
  tx_ebuf :: "u8 list"
  tx_rbuf :: "u8 list"
  tx_log_count :: u64
  to_usb :: "u8 list list"
  to_dns :: "(u8 list \<times> u8 list) list"

record tx_seen =
  seen_bridge :: bool
  seen_warm :: bool
  seen_gateway :: mac
  seen_dns_open :: bool
  seen_usb_open :: bool

definition tx_start :: tx_state where
  "tx_start = \<lparr>tx_ebuf = replicate ETH_BUF_SIZE 0, tx_rbuf = replicate RNDIS_BUF_SIZE 0,
     tx_log_count = 0, to_usb = [], to_dns = []\<rparr>"

text \<open>Translate, wrap, send: the second half of the loop's body.\<close>

definition forward_packet :: "mac \<Rightarrow> mac \<Rightarrow> bool \<Rightarrow> u8 list \<Rightarrow> tx_state \<Rightarrow> (bool \<times> tx_state) outcome" where
  "forward_packet our_mac gw usb_open pkt st =
     (case ip_to_eth pkt (tx_ebuf st) our_mac gw of
        Ok (elen, ebuf) \<Rightarrow>
          let st = st\<lparr>tx_ebuf := ebuf\<rparr> in
          if elen = 0 then Ok (True, st)
          else
            and_then (subslice_to ebuf elen) (\<lambda>frame.
            case wrap_frame frame (tx_rbuf st) of
              Ok (rlen, rbuf) \<Rightarrow>
                let st = st\<lparr>tx_rbuf := rbuf\<rparr> in
                and_then (subslice_to rbuf rlen) (\<lambda>msg.
                if usb_open then Ok (True, st\<lparr>to_usb := to_usb st @ [msg]\<rparr>)
                else Ok (False, st))
            | Err _ \<Rightarrow> Ok (True, st) | Panic \<Rightarrow> Panic | Undefined \<Rightarrow> Undefined)
      | Err _ \<Rightarrow> Ok (True, st) | Panic \<Rightarrow> Panic | Undefined \<Rightarrow> Undefined)"

text \<open>
  The body of the batch loop, after a packet of at least one byte was read. \<open>True\<close> is
  \<open>continue\<close> (or the end of the body), \<open>False\<close> is \<open>break\<close>. The channel to the I/O thread holds
  4096 messages; a send into a full one waits until that thread has taken one or has gone. The wait
  is not modelled: what is sent and in which order does not depend on it, and what the thread sees
  at the next packet is any \<open>tx_seen\<close> anyway.
\<close>

definition tx_packet ::
  "dns_mode \<Rightarrow> mac \<Rightarrow> ipv4 \<Rightarrow> ipv4 \<Rightarrow> tx_seen \<Rightarrow> u8 list \<Rightarrow> tx_state \<Rightarrow> (bool \<times> tx_state) outcome" where
  "tx_packet mode our_mac our_ip gw_ip seen pkt st =
     (if \<not> seen_bridge seen then Ok (False, st)
      else
        and_then (if mode \<noteq> System then is_dns_to_gateway pkt our_ip gw_ip else Ok None) (\<lambda>dns.
        and_then
          (case dns of
             None \<Rightarrow> Ok st
           | Some dns_len \<Rightarrow>
               and_then (if dns_len \<le> length pkt then subslice pkt (length pkt - dns_len) (length pkt)
                         else Panic) (\<lambda>dns_query.
               Ok (if seen_dns_open seen then st\<lparr>to_dns := to_dns st @ [(pkt, dns_query)]\<rparr> else st)))
          (\<lambda>st.
        if dns \<noteq> None \<and> seen_warm seen then Ok (True, st)
        else
          let st = (if length pkt \<ge> 4 \<and> tx_log_count st < 10
                    then st\<lparr>tx_log_count := tx_log_count st + 1\<rparr> else st) in
          forward_packet our_mac (seen_gateway seen) (seen_usb_open seen) pkt st)))"

section \<open>The thread\<close>

text \<open>
  What the thread reads from its surroundings: the stop flag, whether \<open>poll\<close> finds the tunnel
  readable, and what it sees at a packet.
\<close>

record 'w tx_env =
  env_bridge :: "'w \<Rightarrow> bool \<times> 'w"
  env_poll :: "'w \<Rightarrow> bool \<times> 'w"
  env_seen :: "'w \<Rightarrow> tx_seen \<times> 'w"

definition TX_BUF_SIZE :: nat where "TX_BUF_SIZE = ETH_BUF_SIZE + 256"

fun tx_batch ::
  "'w sys_calls \<Rightarrow> utun \<Rightarrow> 'w tx_env \<Rightarrow> dns_mode \<Rightarrow> mac \<Rightarrow> ipv4 \<Rightarrow> ipv4 \<Rightarrow> nat \<Rightarrow> tx_state \<Rightarrow>
   ('w, tx_state) io" where
  "tx_batch sys tun env mode our_mac our_ip gw_ip 0 st w = (Ok st, w)"
| "tx_batch sys tun env mode our_mac our_ip gw_ip (Suc n) st w =
     (case utun_read sys tun TX_BUF_SIZE w of
        (Ok [], w) \<Rightarrow> (Ok st, w)
      | (Ok (b # bs), w) \<Rightarrow>
          (case env_seen env w of (seen, w) \<Rightarrow>
           (case tx_packet mode our_mac our_ip gw_ip seen (b # bs) st of
              Ok (True, st) \<Rightarrow> tx_batch sys tun env mode our_mac our_ip gw_ip n st w
            | Ok (False, st) \<Rightarrow> (Ok st, w)
            | Err e \<Rightarrow> (Err e, w) | Panic \<Rightarrow> (Panic, w) | Undefined \<Rightarrow> (Undefined, w)))
      | (Err _, w) \<Rightarrow> (Ok st, w)
      | (Panic, w) \<Rightarrow> (Panic, w) | (Undefined, w) \<Rightarrow> (Undefined, w))"

fun tx_loop ::
  "'w sys_calls \<Rightarrow> utun \<Rightarrow> 'w tx_env \<Rightarrow> dns_mode \<Rightarrow> mac \<Rightarrow> ipv4 \<Rightarrow> ipv4 \<Rightarrow> nat \<Rightarrow> tx_state \<Rightarrow>
   ('w, tx_state option) io" where
  "tx_loop sys tun env mode our_mac our_ip gw_ip 0 st w = (Ok None, w)"
| "tx_loop sys tun env mode our_mac our_ip gw_ip (Suc rounds) st w =
     (case env_bridge env w of (on, w) \<Rightarrow>
      if \<not> on then (Ok (Some st), w)
      else (case env_poll env w of (readable, w) \<Rightarrow>
        if \<not> readable then tx_loop sys tun env mode our_mac our_ip gw_ip rounds st w
        else (case env_bridge env w of (on, w) \<Rightarrow>
          if \<not> on then (Ok (Some st), w)
          else io_then (tx_batch sys tun env mode our_mac our_ip gw_ip 64 st)
            (tx_loop sys tun env mode our_mac our_ip gw_ip rounds) w)))"

section \<open>What a packet becomes\<close>

definition tx_frame :: "mac \<Rightarrow> mac \<Rightarrow> u8 list \<Rightarrow> u8 list option" where
  "tx_frame our_mac gw pkt =
     (if 5 \<le> length pkt \<and> 10 + length pkt \<le> ETH_BUF_SIZE
      then map_option (\<lambda>t. eth_frame_bytes gw our_mac t (drop 4 pkt))
        (ethertype_for (u32_from_be (pkt ! 0) (pkt ! 1) (pkt ! 2) (pkt ! 3)) (pkt ! 4))
      else None)"

definition intercepted :: "dns_mode \<Rightarrow> ipv4 \<Rightarrow> u8 list \<Rightarrow> bool" where
  "intercepted mode our_ip pkt \<longleftrightarrow> mode \<noteq> System \<and> is_query our_ip pkt"

definition tx_buffers_ok :: "tx_state \<Rightarrow> bool" where
  "tx_buffers_ok st \<longleftrightarrow> length (tx_ebuf st) = ETH_BUF_SIZE \<and> length (tx_rbuf st) = RNDIS_BUF_SIZE"

lemma tx_start_ok: "tx_buffers_ok tx_start"
  by (simp add: tx_buffers_ok_def tx_start_def)

lemma ip_to_eth_frame:
  assumes "length ebuf = ETH_BUF_SIZE"
  shows "ip_to_eth pkt ebuf our_mac gw =
    (case tx_frame our_mac gw pkt of
       None \<Rightarrow> Ok (0, ebuf) | Some f \<Rightarrow> Ok (length f, f @ drop (length f) ebuf))"
proof (cases "length pkt < 5")
  case True
  then show ?thesis by (simp add: ip_to_eth_short tx_frame_def)
next
  case False
  then have "5 \<le> length pkt" by simp
  then obtain af b ip where pkt: "pkt = utun_bytes af (b # ip)" by (rule utun_cases)
  have "u32_from_be (utun_bytes af (b # ip) ! 0) (utun_bytes af (b # ip) ! 1) (utun_bytes af (b # ip) ! 2)
      (utun_bytes af (b # ip) ! 3) = af"
    using u32_from_be_parts [of af] by (simp add: utun_bytes_def u32_to_be_bytes_def)
  moreover have "utun_bytes af (b # ip) ! 4 = b" "drop 4 (utun_bytes af (b # ip)) = b # ip"
    by (simp_all add: utun_bytes_def nth_append)
  ultimately show ?thesis
    using assms by (simp add: tx_frame_def pkt ip_to_eth_form Let_def split: option.split)
qed

lemma tx_frame_length: "tx_frame our_mac gw pkt = Some f \<Longrightarrow> 15 \<le> length f \<and> length f \<le> ETH_BUF_SIZE"
  by (auto simp: tx_frame_def split: if_splits)

definition tx_sends :: "dns_mode \<Rightarrow> mac \<Rightarrow> ipv4 \<Rightarrow> tx_seen \<Rightarrow> u8 list \<Rightarrow> u8 list list" where
  "tx_sends mode our_mac our_ip seen pkt =
     (if intercepted mode our_ip pkt \<and> seen_warm seen then []
      else case tx_frame our_mac (seen_gateway seen) pkt of None \<Rightarrow> [] | Some f \<Rightarrow> [data_message f])"

definition tx_asks :: "dns_mode \<Rightarrow> ipv4 \<Rightarrow> u8 list \<Rightarrow> (u8 list \<times> u8 list) list" where
  "tx_asks mode our_ip pkt = (if intercepted mode our_ip pkt then [(pkt, drop (12 + ihl_of pkt) pkt)] else [])"

text \<open>The end of the body: translate, wrap, send.\<close>

lemma forward_packet_form:
  assumes "tx_buffers_ok st"
  shows "\<exists>eb rb. length eb = ETH_BUF_SIZE \<and> length rb = RNDIS_BUF_SIZE \<and>
    forward_packet our_mac gw usb_open pkt st =
    Ok (tx_frame our_mac gw pkt = None \<or> usb_open,
      st\<lparr>tx_ebuf := eb, tx_rbuf := rb, to_usb := to_usb st @
        (case tx_frame our_mac gw pkt of None \<Rightarrow> [] | Some f \<Rightarrow> if usb_open then [data_message f] else [])\<rparr>)"
proof -
  have b: "length (tx_ebuf st) = ETH_BUF_SIZE" "length (tx_rbuf st) = RNDIS_BUF_SIZE"
    using assms by (simp_all add: tx_buffers_ok_def)
  show ?thesis
  proof (cases "tx_frame our_mac gw pkt")
    case None
    then show ?thesis
      using b by (intro exI [of _ "tx_ebuf st"] exI [of _ "tx_rbuf st"])
        (simp add: forward_packet_def ip_to_eth_frame)
  next
    case (Some f)
    let ?eb = "f @ drop (length f) (tx_ebuf st)" and ?rb = "data_message f @ drop (44 + length f) (tx_rbuf st)"
    have f: "15 \<le> length f" "length f \<le> ETH_BUF_SIZE" "f \<noteq> []" using tx_frame_length [OF Some] by auto
    have e: "ip_to_eth pkt (tx_ebuf st) our_mac gw = Ok (length f, ?eb)"
      using Some b by (simp add: ip_to_eth_frame)
    have w: "wrap_frame f (tx_rbuf st) = Ok (44 + length f, ?rb)"
      by (rule rndis_drv.wrap_fits) (use f b in simp)
    have m: "subslice_to ?eb (length f) = Ok f" "subslice_to ?rb (44 + length f) = Ok (data_message f)"
      by simp_all
    have "length ?eb = ETH_BUF_SIZE" "length ?rb = RNDIS_BUF_SIZE" using f b by simp_all
    then show ?thesis
      using Some f w m by (intro exI [of _ ?eb] exI [of _ ?rb]) (auto simp: forward_packet_def e Let_def)
  qed
qed

lemma tx_packet_form:
  assumes "tx_buffers_ok st"
  shows "\<exists>go st'. tx_packet mode our_mac our_ip gw_ip seen pkt st = Ok (go, st') \<and> tx_buffers_ok st' \<and>
    to_dns st' = to_dns st @ (if seen_bridge seen \<and> seen_dns_open seen then tx_asks mode our_ip pkt else []) \<and>
    to_usb st' = to_usb st @ (if seen_bridge seen \<and> seen_usb_open seen
      then tx_sends mode our_mac our_ip seen pkt else []) \<and>
    (go \<longleftrightarrow> seen_bridge seen \<and> (seen_usb_open seen \<or> tx_sends mode our_mac our_ip seen pkt = []))"
proof (cases "seen_bridge seen")
  case False
  with assms show ?thesis by (auto simp: tx_packet_def)
next
  case True
  define st1 where "st1 = (if seen_dns_open seen then st\<lparr>to_dns := to_dns st @ tx_asks mode our_ip pkt\<rparr> else st)"
  define st2 where "st2 = (if length pkt \<ge> 4 \<and> tx_log_count st1 < 10
    then st1\<lparr>tx_log_count := tx_log_count st1 + 1\<rparr> else st1)"
  have k: "to_usb st2 = to_usb st" "to_dns st2 = to_dns st1" "tx_buffers_ok st1" "to_usb st1 = to_usb st"
      "tx_buffers_ok st2"
    using assms by (simp_all add: tx_buffers_ok_def st1_def st2_def)
  have "is_query our_ip pkt \<Longrightarrow> 12 + ihl_of pkt \<le> length pkt" by (simp add: is_query_def)
  then have "tx_packet mode our_mac our_ip gw_ip seen pkt st =
    (if intercepted mode our_ip pkt \<and> seen_warm seen then Ok (True, st1)
     else forward_packet our_mac (seen_gateway seen) (seen_usb_open seen) pkt st2)"
    using True unfolding tx_packet_def interception_form st2_def st1_def Let_def
    by (simp add: tx_asks_def intercepted_def)
  with True forward_packet_form [OF k(5), of our_mac "seen_gateway seen" "seen_usb_open seen" pkt] k show ?thesis
    by (auto simp: tx_sends_def tx_buffers_ok_def st1_def split: option.split)
qed

text \<open>
  Claim C3: what the TX thread does with a packet. On any packet, and whatever it sees of the other
  threads, it runs without a fault; a DNS query from our address goes to the resolver in encrypted
  mode; a packet that is no such query, or any packet until the first encrypted answer, is sent as one
  message to the gateway's address if it is an IP packet that fits; the batch goes on unless the
  session has stopped or the I/O thread has hung up.
\<close>

theorem tx_packet_exact:
  assumes "tx_buffers_ok st"
  shows "\<exists>go st'. tx_packet mode our_mac our_ip gw_ip seen pkt st = Ok (go, st') \<and> tx_buffers_ok st' \<and>
    to_dns st' = to_dns st @ (if seen_bridge seen \<and> seen_dns_open seen then tx_asks mode our_ip pkt else []) \<and>
    to_usb st' = to_usb st @ (if seen_bridge seen \<and> seen_usb_open seen
      then tx_sends mode our_mac our_ip seen pkt else []) \<and>
    (go \<longleftrightarrow> seen_bridge seen \<and> (seen_usb_open seen \<or> tx_sends mode our_mac our_ip seen pkt = []))"
  by (rule tx_packet_form [OF assms])

text \<open>A query as a host sends it, for the witnesses: the sample of \<open>Dns_Proxy\<close> is from 10.0.0.2.\<close>

definition steady_seen :: "bool \<Rightarrow> mac \<Rightarrow> tx_seen" where
  "steady_seen warm gw = \<lparr>seen_bridge = True, seen_warm = warm, seen_gateway = gw, seen_dns_open = True,
     seen_usb_open = True\<rparr>"

lemma sample_query_asks:
  "intercepted DoT 0x0A000002 sample_query" "ihl_of sample_query = 20" "length sample_query = 44"
  "intercepted System ip p = False"
  by (simp_all add: intercepted_def is_query_def sample_query_def ihl_of_def u32_to_be_bytes_def)

theorem tx_packet_exact_witness:
  "\<exists>st'. tx_packet DoT mac_broadcast 0x0A000002 0 (steady_seen True mac_broadcast) sample_query tx_start = Ok (True, st') \<and>
    to_usb st' = [] \<and> to_dns st' = [(sample_query, [0xAB, 0xCD, 1, 0, 0, 1, 0, 0, 0, 0, 0, 0])]"
proof -
  have "drop 32 sample_query = [0xAB, 0xCD, 1, 0, 0, 1, 0, 0, 0, 0, 0, 0]"
    by (simp add: sample_query_def)
  then show ?thesis
    using tx_packet_exact [OF tx_start_ok, of DoT mac_broadcast "0x0A000002" 0
        "steady_seen True mac_broadcast" sample_query]
    by (auto simp: steady_seen_def tx_sends_def tx_asks_def sample_query_asks tx_start_def)
qed

section \<open>A batch, up to the peer\<close>

text \<open>
  A tunnel that holds a list of packets, and surroundings that stay as they are. Each read takes
  one packet; the rest of one that is longer than the buffer is lost.
\<close>

definition packet_sys :: "u8 list list sys_calls" where
  "packet_sys =
     \<lparr>sys_socket = (\<lambda>w. (3, w)), sys_ctl_info = (\<lambda>_ _ w. ((0, 7), w)), sys_connect = (\<lambda>_ _ _ w. (0, w)),
      sys_close = (\<lambda>_ w. w), sys_set_buffers = (\<lambda>_ _ w. w), sys_get_flags = (\<lambda>_ w. (0, w)),
      sys_set_nonblock = (\<lambda>_ _ w. w),
      sys_read = (\<lambda>_ n w. case w of [] \<Rightarrow> (Inl WouldBlock, []) | p # ps \<Rightarrow> (Inr (take n p), ps)),
      sys_write = (\<lambda>_ d w. (Inr (length d), w)), run_sh = (\<lambda>_ w. (Inr 0, w)), run_scutil = (\<lambda>_ w. w)\<rparr>"

definition steady :: "tx_seen \<Rightarrow> u8 list list tx_env" where
  "steady seen = \<lparr>env_bridge = (\<lambda>w. (True, w)), env_poll = (\<lambda>w. (w \<noteq> [], w)), env_seen = (\<lambda>w. (seen, w))\<rparr>"

definition packet_ok :: "u8 list \<Rightarrow> bool" where
  "packet_ok p \<longleftrightarrow> p \<noteq> [] \<and> length p \<le> TX_BUF_SIZE"

lemma read_packet_sys:
  "packet_ok p \<Longrightarrow> utun_read packet_sys tun TX_BUF_SIZE (p # ps) = (Ok p, ps)"
  "utun_read packet_sys tun TX_BUF_SIZE [] = (Ok [], [])"
  by (simp_all add: utun_read_def packet_sys_def packet_ok_def)

lemma tx_batch_form:
  assumes "tx_buffers_ok st" and "list_all packet_ok pkts"
    and "seen_bridge seen" and "seen_dns_open seen" and "seen_usb_open seen"
  shows "\<exists>st'. tx_batch packet_sys tun (steady seen) mode our_mac our_ip gw_ip n st pkts = (Ok st', drop n pkts) \<and>
    tx_buffers_ok st' \<and>
    to_usb st' = to_usb st @ concat (map (tx_sends mode our_mac our_ip seen) (take n pkts)) \<and>
    to_dns st' = to_dns st @ concat (map (tx_asks mode our_ip) (take n pkts))"
  using assms(1,2)
proof (induction n arbitrary: st pkts)
  case (Suc n)
  show ?case
  proof (cases pkts)
    case Nil
    then show ?thesis using Suc.prems by (simp add: read_packet_sys)
  next
    case (Cons p ps)
    with Suc.prems have p: "packet_ok p" "list_all packet_ok ps" by simp_all
    then obtain b bs where bs: "p = b # bs" by (cases p) (auto simp: packet_ok_def)
    obtain st1 where 1: "tx_packet mode our_mac our_ip gw_ip seen p st = Ok (True, st1)" "tx_buffers_ok st1"
      "to_dns st1 = to_dns st @ tx_asks mode our_ip p" "to_usb st1 = to_usb st @ tx_sends mode our_mac our_ip seen p"
      using tx_packet_form [OF Suc.prems(1), of mode our_mac our_ip gw_ip seen p] assms(3-5) by auto
    from Suc.IH [OF 1(2) p(2)] 1 show ?thesis
      using read_packet_sys(1) [OF p(1), of tun ps] by (auto simp: Cons bs steady_def)
  qed
qed simp

lemma frames_of_tx_sends:
  "concat (map rndis_frame_list (tx_sends mode our_mac our_ip seen p)) =
    (if intercepted mode our_ip p \<and> seen_warm seen then []
     else case tx_frame our_mac (seen_gateway seen) p of None \<Rightarrow> [] | Some f \<Rightarrow> [f])"
proof -
  have "rndis_frame_list (data_message f) = [f]" if "tx_frame our_mac (seen_gateway seen) p = Some f" for f
    using tx_frame_length [OF that] by (intro rndis_drv.frames_message) auto
  then show ?thesis by (simp add: tx_sends_def split: option.split)
qed

lemma frames_of_batch:
  "concat (map rndis_frame_list (concat (map (tx_sends mode our_mac our_ip seen) pkts))) =
    List.map_filter (tx_frame our_mac (seen_gateway seen))
      (filter (\<lambda>p. \<not> (intercepted mode our_ip p \<and> seen_warm seen)) pkts)"
  by (induction pkts)
    (auto simp: map_filter_simps frames_of_tx_sends [unfolded concat_def] frames_of_tx_sends split: option.split)

text \<open>
  Claim C14: the way from the tunnel to the phone. A batch takes at most sixty-four packets and leaves
  the rest in the tunnel; the frames that the phone unwraps from the messages are, in order, the
  translations of the packets that were not held back, one each; and once an encrypted answer has
  come, none of them is a DNS query of this host: those are with the resolver, in order, with their
  packets.
\<close>

theorem tx_batch_to_peer:
  assumes "list_all packet_ok pkts" and "seen_bridge seen" and "seen_dns_open seen" and "seen_usb_open seen"
  shows "\<exists>st. tx_batch packet_sys tun (steady seen) mode our_mac our_ip gw_ip 64 tx_start pkts = (Ok st, drop 64 pkts) \<and>
    concat (map rndis_frame_list (to_usb st)) = List.map_filter (tx_frame our_mac (seen_gateway seen))
      (filter (\<lambda>p. \<not> (intercepted mode our_ip p \<and> seen_warm seen)) (take 64 pkts)) \<and>
    to_dns st = map (\<lambda>p. (p, drop (12 + ihl_of p) p)) (filter (intercepted mode our_ip) (take 64 pkts))"
proof -
  obtain st where st: "tx_batch packet_sys tun (steady seen) mode our_mac our_ip gw_ip 64 tx_start pkts = (Ok st, drop 64 pkts)"
    "to_usb st = to_usb tx_start @ concat (map (tx_sends mode our_mac our_ip seen) (take 64 pkts))"
    "to_dns st = to_dns tx_start @ concat (map (tx_asks mode our_ip) (take 64 pkts))"
    using tx_batch_form [OF tx_start_ok assms] by blast
  moreover have "concat (map (tx_asks mode our_ip) ps) =
      map (\<lambda>p. (p, drop (12 + ihl_of p) p)) (filter (intercepted mode our_ip) ps)" for ps
    by (induction ps) (simp_all add: tx_asks_def)
  ultimately show ?thesis using frames_of_batch by (auto simp: tx_start_def)
qed

theorem tx_batch_to_peer_witness:
  "\<exists>st. tx_batch packet_sys \<lparr>utun_fd = 3, utun_unit = 0, ifname = ''utun0''\<rparr> (steady (steady_seen True mac_broadcast))
      DoT mac_broadcast 0x0A000002 0 64 tx_start [sample_query, utun_bytes 2 [0x45, 7], [1]] = (Ok st, []) \<and>
    concat (map rndis_frame_list (to_usb st)) = [eth_frame_bytes mac_broadcast mac_broadcast 0x0800 [0x45, 7]] \<and>
    map fst (to_dns st) = [sample_query]"
proof -
  have p: "packet_ok sample_query" "packet_ok (utun_bytes 2 [0x45, 7])" "packet_ok [1]"
    by (simp_all add: packet_ok_def TX_BUF_SIZE_def sample_query_asks(3))
      (simp_all add: sample_query_def utun_bytes_def)
  have q: "\<not> is_query ip (utun_bytes 2 [0x45, 7])" "\<not> is_query ip [1]" for ip
    by (simp_all add: is_query_def)
  have f: "tx_frame m g [1] = None" "tx_frame m g (utun_bytes 2 [0x45, 7]) = Some (eth_frame_bytes g m 0x0800 [0x45, 7])" for m g
    by (simp_all add: tx_frame_def) (simp add: utun_bytes_def u32_to_be_bytes_def u32_from_be_def ethertype_for_def)
  show ?thesis
    using tx_batch_to_peer [of "[sample_query, utun_bytes 2 [0x45, 7], [1]]" "steady_seen True mac_broadcast"
        "\<lparr>utun_fd = 3, utun_unit = 0, ifname = ''utun0''\<rparr>" DoT mac_broadcast "0x0A000002" 0] p q f
    by (auto simp: steady_seen_def sample_query_asks map_filter_simps intercepted_def [of _ _ "utun_bytes 2 [0x45, 7]"]
        intercepted_def [of _ _ "[1]"])
qed

end
