(* ===== verification/Dot_Pool.thy ===== *)
theory Dot_Pool
  imports Dns_Proxy Utun "HOL-Library.Multiset"
begin

text \<open>
  The resolver's workers of \<^verbatim>\<open>src/main.rs\<close> (\<open>process_dot_serial\<close>): a batch of intercepted queries
  is shared by at most four threads, each with a TLS connection, which take the next index from
  an atomic counter until none is left or the session stops.

  A worker's step is a function; the interleaving of the workers, the stop flag among them, is the
  relation \<open>pool_step\<close>. The connection and the world it acts on are those of \<open>Dns_Proxy\<close>; opening
  a connection is a parameter. \<open>answered\<close> and \<open>given_up\<close> keep which queries were written to the
  tunnel and which were dropped.
\<close>

definition MAX_POOL :: nat where [simp]: "MAX_POOL = 4"

section \<open>One query\<close>

type_synonym 'w connect = "dns_provider \<Rightarrow> ('w, 'w tls_stream) call"

text \<open>A failed query is tried once more on a fresh connection.\<close>

definition dot_answer ::
  "'w connect \<Rightarrow> dns_provider \<Rightarrow> 'w tls_stream \<Rightarrow> u8 list \<Rightarrow> 'w \<Rightarrow> (u8 list option \<times> 'w tls_stream) \<times> 'w" where
  "dot_answer connect provider conn dns_query w =
     (case dot_query_inner conn dns_query w of
        (Inr r, w) \<Rightarrow> ((Some r, conn), w)
      | (Inl _, w) \<Rightarrow>
          (case connect provider w of
             (Inr new_conn, w) \<Rightarrow>
               (case dot_query_inner new_conn dns_query w of
                  (Inr r, w) \<Rightarrow> ((Some r, new_conn), w)
                | (Inl _, w) \<Rightarrow> ((None, new_conn), w))
           | (Inl _, w) \<Rightarrow> ((None, conn), w)))"

section \<open>The workers\<close>

datatype 'w worker =
    Ready "'w tls_stream"
  | Serving "'w tls_stream" nat
  | Answering "'w tls_stream" nat "u8 list"
  | Finished
  | Panicked

record 'w pool =
  pool_world :: 'w
  counter :: nat
  workers :: "'w worker list"
  returned :: "'w tls_stream list"
  warm :: bool
  bridge_on :: bool
  answered :: "(nat \<times> u8 list) list"
  given_up :: "nat list"

record 'w pool_env =
  pool_sys :: "'w sys_calls"
  pool_tun :: utun
  pool_connect :: "'w connect"
  pool_provider :: dns_provider
  pool_queries :: "(u8 list \<times> u8 list) list"

text \<open>
  The body of the worker's loop in three steps: take an index, ask, write the reply. The flag
  \<open>warm\<close> is set with the first answer.
\<close>

definition worker_step :: "'w pool_env \<Rightarrow> nat \<Rightarrow> 'w pool \<Rightarrow> 'w pool option" where
  "worker_step env k st =
     (if k < length (workers st) then
       (case workers st ! k of
          Ready conn \<Rightarrow>
            (let i = counter st; st = st\<lparr>counter := counter st + 1\<rparr> in
             if i \<ge> length (pool_queries env) \<or> \<not> bridge_on st
             then Some (st\<lparr>returned := returned st @ [conn], workers := (workers st)[k := Finished]\<rparr>)
             else Some (st\<lparr>workers := (workers st)[k := Serving conn i]\<rparr>))
        | Serving conn i \<Rightarrow>
            (case dot_answer (pool_connect env) (pool_provider env) conn (snd (pool_queries env ! i)) (pool_world st) of
               ((resp, conn), w) \<Rightarrow>
                 (case resp of
                    Some dns_resp \<Rightarrow>
                      Some (st\<lparr>pool_world := w, warm := True, workers := (workers st)[k := Answering conn i dns_resp]\<rparr>)
                  | None \<Rightarrow>
                      Some (st\<lparr>pool_world := w, given_up := given_up st @ [i], workers := (workers st)[k := Ready conn]\<rparr>)))
        | Answering conn i dns_resp \<Rightarrow>
            (case build_reply (fst (pool_queries env ! i)) dns_resp of
               Ok reply \<Rightarrow>
                 (case utun_write (pool_sys env) (pool_tun env) reply (pool_world st) of (_, w) \<Rightarrow>
                    Some (st\<lparr>pool_world := w, answered := answered st @ [(i, reply)],
                             workers := (workers st)[k := Ready conn]\<rparr>))
             | _ \<Rightarrow> Some (st\<lparr>workers := (workers st)[k := Panicked]\<rparr>))
        | Finished \<Rightarrow> None
        | Panicked \<Rightarrow> None)
      else None)"

inductive pool_step :: "'w pool_env \<Rightarrow> 'w pool \<Rightarrow> 'w pool \<Rightarrow> bool" for env where
  work: "worker_step env k st = Some st' \<Longrightarrow> pool_step env st st'"
| stop: "pool_step env st (st\<lparr>bridge_on := False\<rparr>)"

declare pool_step.intros [intro]

inductive_cases pool_stepE [elim!]: "pool_step env st st'"

abbreviation pool_steps :: "'w pool_env \<Rightarrow> 'w pool \<Rightarrow> 'w pool \<Rightarrow> bool" where
  "pool_steps env \<equiv> (pool_step env)\<^sup>*\<^sup>*"

section \<open>Before and after the workers\<close>

text \<open>
  The pool grows by one connection at a time until it has as many as the batch can use; a
  failure ends this. Then each worker takes the last connection of the pool, or opens its own.
\<close>

fun expand_pool ::
  "'w connect \<Rightarrow> dns_provider \<Rightarrow> nat \<Rightarrow> 'w tls_stream list \<Rightarrow> 'w \<Rightarrow> 'w tls_stream list \<times> 'w" where
  "expand_pool connect provider 0 conns w = (conns, w)"
| "expand_pool connect provider (Suc missing) conns w =
     (case connect provider w of
        (Inr conn, w) \<Rightarrow> expand_pool connect provider missing (conns @ [conn]) w
      | (Inl _, w) \<Rightarrow> (conns, w))"

fun spawn_workers ::
  "'w connect \<Rightarrow> dns_provider \<Rightarrow> nat \<Rightarrow> 'w tls_stream list \<Rightarrow> 'w \<Rightarrow> 'w worker list \<times> 'w tls_stream list \<times> 'w" where
  "spawn_workers connect provider 0 conns w = ([], conns, w)"
| "spawn_workers connect provider (Suc n) conns w =
     (if conns \<noteq> [] then
        (case spawn_workers connect provider n (butlast conns) w of
           (ws, rest, w) \<Rightarrow> (Ready (last conns) # ws, rest, w))
      else
        (case connect provider w of
           (Inr conn, w) \<Rightarrow>
             (case spawn_workers connect provider n conns w of (ws, rest, w) \<Rightarrow> (Ready conn # ws, rest, w))
         | (Inl _, w) \<Rightarrow> spawn_workers connect provider n conns w))"

definition pool_start :: "'w pool_env \<Rightarrow> bool \<Rightarrow> 'w tls_stream list \<Rightarrow> 'w \<Rightarrow> 'w pool \<times> 'w tls_stream list" where
  "pool_start env is_warm dot_conns w =
     (let limit = min MAX_POOL (length (pool_queries env)) in
      case expand_pool (pool_connect env) (pool_provider env) (limit - length dot_conns) dot_conns w of
        (conns, w) \<Rightarrow>
        (let num_workers = max (length conns) 1 in
         case spawn_workers (pool_connect env) (pool_provider env) num_workers conns w of
           (ws, rest, w) \<Rightarrow>
             (\<lparr>pool_world = w, counter = 0, workers = ws, returned = [], warm = is_warm, bridge_on = True,
               answered = [], given_up = []\<rparr>, rest)))"

definition pool_end :: "'w tls_stream list \<Rightarrow> 'w pool \<Rightarrow> 'w tls_stream list" where
  "pool_end rest st = take MAX_POOL (rest @ returned st)"

section \<open>Each query once\<close>

fun hand :: "'w worker \<Rightarrow> nat multiset" where
  "hand (Serving conn i) = {#i#}"
| "hand (Answering conn i r) = {#i#}"
| "hand (Ready conn) = {#}"
| "hand Finished = {#}"
| "hand Panicked = {#}"

text \<open>The indices taken from the counter: in a worker's hands, answered, or given up.\<close>

definition taken :: "'w pool \<Rightarrow> nat multiset" where
  "taken st = sum_list (map hand (workers st)) + mset (map fst (answered st)) + mset (given_up st)"

definition fetched :: "'w pool_env \<Rightarrow> 'w pool \<Rightarrow> nat multiset" where
  "fetched env st = mset_set {0..<min (counter st) (length (pool_queries env))}"

text \<open>The queries come from the TX thread: each is an intercepted packet of this host.\<close>

definition queries_ok :: "ipv4 \<Rightarrow> 'w pool_env \<Rightarrow> bool" where
  "queries_ok our_ip env \<longleftrightarrow> list_all (\<lambda>(pkt, _). is_query our_ip pkt) (pool_queries env)"

definition active :: "'w pool \<Rightarrow> nat" where
  "active st = length (filter (\<lambda>w. w \<noteq> Finished) (workers st))"

definition pool_inv :: "'w pool_env \<Rightarrow> 'w pool \<Rightarrow> bool" where
  "pool_inv env st \<longleftrightarrow>
     taken st \<subseteq># fetched env st \<and> (bridge_on st \<longrightarrow> taken st = fetched env st) \<and>
     Panicked \<notin> set (workers st) \<and>
     (\<forall>(i, out) \<in> set (answered st). \<exists>r. out = reply_wire (fst (pool_queries env ! i)) r) \<and>
     active st + length (returned st) = length (workers st) \<and>
     (Finished \<in> set (workers st) \<and> bridge_on st \<longrightarrow> length (pool_queries env) \<le> counter st)"

lemma sum_list_map_update:
  fixes f :: "'a \<Rightarrow> 'b :: comm_monoid_add"
  shows "k < length xs \<Longrightarrow> sum_list (map f (xs[k := x])) + f (xs ! k) = sum_list (map f xs) + f x"
  by (induction xs arbitrary: k) (auto simp: nth_Cons' ac_simps split: nat.split)

lemma hands_update:
  assumes "k < length ws" and "ws ! k = w"
  shows "sum_list (map hand (ws[k := v])) + hand w = sum_list (map hand ws) + hand v"
  using sum_list_map_update [OF assms(1), of hand v] assms(2) by simp

lemma in_hand_below:
  assumes "k < length (workers st)" and "i \<in># hand (workers st ! k)" and "taken st \<subseteq># fetched env st"
  shows "i < length (pool_queries env)"
proof -
  have "sum_list (map hand (workers st)) = hand (workers st ! k) + sum_list (map hand ((workers st)[k := Finished]))"
    using hands_update [OF assms(1) refl, of Finished] by (simp add: add.commute)
  then have "i \<in># taken st" using assms(2) by (simp add: taken_def)
  then have "i \<in># fetched env st" using assms(3) by (metis mset_subset_eqD)
  then show ?thesis by (simp add: fetched_def)
qed

lemma length_filter_sum: "length (filter P xs) = sum_list (map (\<lambda>x. if P x then 1 else 0) xs)"
  by (induction xs) simp_all

lemma active_update:
  assumes "k < length (workers st)"
  shows "length (filter (\<lambda>w. w \<noteq> Finished) ((workers st)[k := v])) + (if workers st ! k = Finished then 0 else 1) =
    active st + (if v = Finished then 0 else 1)"
  using sum_list_map_update [OF assms, of "\<lambda>w. if w \<noteq> Finished then 1 else 0 :: nat" v]
  by (simp add: active_def length_filter_sum split: if_splits)

text \<open>The four ways a worker moves.\<close>

lemma worker_step_cases:
  assumes "worker_step env k st = Some st'" and "queries_ok our_ip env" and "taken st \<subseteq># fetched env st"
  obtains
    (leave) conn where "k < length (workers st)" "workers st ! k = Ready conn"
      "counter st \<ge> length (pool_queries env) \<or> \<not> bridge_on st"
      "st' = st\<lparr>counter := counter st + 1, returned := returned st @ [conn], workers := (workers st)[k := Finished]\<rparr>"
  | (fetch) conn where "k < length (workers st)" "workers st ! k = Ready conn"
      "counter st < length (pool_queries env)" "bridge_on st"
      "st' = st\<lparr>counter := counter st + 1, workers := (workers st)[k := Serving conn (counter st)]\<rparr>"
  | (got) conn i conn' r w wm where "k < length (workers st)" "workers st ! k = Serving conn i"
      "st' = st\<lparr>pool_world := w, warm := wm, workers := (workers st)[k := Answering conn' i r]\<rparr>"
  | (drop) conn i conn' w where "k < length (workers st)" "workers st ! k = Serving conn i"
      "st' = st\<lparr>pool_world := w, given_up := given_up st @ [i], workers := (workers st)[k := Ready conn']\<rparr>"
  | (reply) conn i r w where "k < length (workers st)" "workers st ! k = Answering conn i r"
      "st' = st\<lparr>pool_world := w, answered := answered st @ [(i, reply_wire (fst (pool_queries env ! i)) r)],
                workers := (workers st)[k := Ready conn]\<rparr>"
proof -
  have k: "k < length (workers st)" using assms(1) by (simp add: worker_step_def split: if_splits)
  show thesis
  proof (cases "workers st ! k")
    case (Ready conn)
    with k assms(1) leave fetch show ?thesis
      by (simp add: worker_step_def Let_def not_le split: if_splits)
  next
    case (Serving conn i)
    with k assms(1) got drop show ?thesis
      by (auto simp: worker_step_def split: prod.splits option.splits)
  next
    case (Answering conn i r)
    then have "i < length (pool_queries env)" by (intro in_hand_below [OF k _ assms(3)]) simp
    then have "is_query our_ip (fst (pool_queries env ! i))"
      using assms(2) by (auto simp: queries_ok_def list_all_length case_prod_beta)
    then have "build_reply (fst (pool_queries env ! i)) r = Ok (reply_wire (fst (pool_queries env ! i)) r)"
      by (intro build_reply_ok) (auto simp: is_query_def)
    moreover obtain x w where "utun_write (pool_sys env) (pool_tun env) (reply_wire (fst (pool_queries env ! i)) r)
        (pool_world st) = (x, w)" by force
    ultimately have "st' = st\<lparr>pool_world := w, answered := answered st @ [(i, reply_wire (fst (pool_queries env ! i)) r)],
        workers := (workers st)[k := Ready conn]\<rparr>"
      using Answering k assms(1) by (simp add: worker_step_def)
    then show ?thesis by (rule reply [OF k Answering])
  qed (use k assms(1) in \<open>simp_all add: worker_step_def\<close>)
qed

lemma pool_inv_step:
  assumes "pool_step env st st'" and "queries_ok our_ip env" and "pool_inv env st"
  shows "pool_inv env st'"
  using assms(1)
proof cases
  case (work k)
  have sub: "taken st \<subseteq># fetched env st" using assms(3) by (simp add: pool_inv_def)
  have np: "Panicked \<notin> set ((workers st)[k := v])" if "v \<noteq> Panicked" for v
    using assms(3) that set_update_subset_insert [of "workers st" k v] by (auto simp: pool_inv_def)
  have fin: "Finished \<in> set ((workers st)[k := v]) \<Longrightarrow> v \<noteq> Finished \<Longrightarrow> Finished \<in> set (workers st)" for v
    using set_update_subset_insert [of "workers st" k v] by auto
  from work assms(2) sub show ?thesis
  proof (cases rule: worker_step_cases)
    case (leave conn)
    have "taken st' = taken st" using leave hands_update [OF leave(1,2), of Finished] by (simp add: taken_def)
    moreover have "fetched env st \<subseteq># fetched env st'" "bridge_on st \<Longrightarrow> fetched env st' = fetched env st"
      using leave by (auto simp: fetched_def intro!: subset_imp_msubset_mset_set)
    ultimately show ?thesis
      using leave assms(3) np active_update [OF leave(1), of Finished] sub
      by (auto simp: pool_inv_def active_def intro: subset_mset.order_trans)
  next
    case (fetch conn)
    have "fetched env st' = add_mset (counter st) (fetched env st)"
      using fetch by (simp add: fetched_def atLeast0_lessThan_Suc)
    moreover have "taken st' = add_mset (counter st) (taken st)"
      using fetch hands_update [OF fetch(1,2), of "Serving conn (counter st)"] by (simp add: taken_def)
    ultimately show ?thesis
      using fetch assms(3) np fin active_update [OF fetch(1), of "Serving conn (counter st)"]
      by (auto simp: pool_inv_def active_def)
  next
    case (got conn i conn' r w wm)
    have "taken st' = taken st" using got hands_update [OF got(1,2), of "Answering conn' i r"] by (simp add: taken_def)
    then show ?thesis
      using got assms(3) np fin active_update [OF got(1), of "Answering conn' i r"]
      by (auto simp: pool_inv_def active_def fetched_def)
  next
    case (drop conn i conn' w)
    have "taken st' = taken st" using drop hands_update [OF drop(1,2), of "Ready conn'"] by (simp add: taken_def)
    then show ?thesis
      using drop assms(3) np fin active_update [OF drop(1), of "Ready conn'"]
      by (auto simp: pool_inv_def active_def fetched_def)
  next
    case (reply conn i r w)
    have "taken st' = taken st" using reply hands_update [OF reply(1,2), of "Ready conn"] by (simp add: taken_def)
    then show ?thesis
      using reply assms(3) np fin active_update [OF reply(1), of "Ready conn"]
      by (auto simp: pool_inv_def active_def fetched_def)
  qed
next
  case stop
  with assms(3) show ?thesis by (simp add: pool_inv_def taken_def fetched_def active_def)
qed

lemma pool_inv_steps:
  "pool_steps env st st' \<Longrightarrow> queries_ok our_ip env \<Longrightarrow> pool_inv env st \<Longrightarrow> pool_inv env st'"
  by (induction rule: rtranclp_induct) (simp, metis pool_inv_step)

section \<open>The pool of connections\<close>

lemma expand_pool_length:
  "expand_pool connect provider m conns w = (conns', w') \<Longrightarrow>
   length conns \<le> length conns' \<and> length conns' \<le> length conns + m"
  by (induction connect provider m conns w rule: expand_pool.induct)
    (auto split: prod.splits sum.splits)

lemma spawn_workers_form:
  "spawn_workers connect provider n conns w = (ws, rest, w') \<Longrightarrow>
   length ws \<le> n \<and> list_all (\<lambda>x. \<exists>c. x = Ready c) ws \<and> length rest = length conns - n \<and>
   (length conns = n \<longrightarrow> length ws = n)"
proof (induction n arbitrary: conns w ws rest)
  case (Suc n)
  show ?case
  proof (cases "conns = []")
    case True
    with Suc.prems show ?thesis
      by (auto split: prod.splits sum.splits dest!: Suc.IH)
  next
    case False
    obtain ws1 rest1 where 1: "spawn_workers connect provider n (butlast conns) w = (ws1, rest1, w')"
      "ws = Ready (last conns) # ws1" "rest = rest1"
      using Suc.prems False by (auto split: prod.splits)
    from Suc.IH [OF 1(1)] 1(2,3) False show ?thesis by auto
  qed
qed simp

lemma pool_start_form:
  assumes "pool_start env is_warm dot_conns w = (st, rest)" and "length dot_conns \<le> MAX_POOL"
  shows "length (workers st) \<le> MAX_POOL \<and> rest = [] \<and> list_all (\<lambda>x. \<exists>c. x = Ready c) (workers st) \<and>
    (dot_conns \<noteq> [] \<longrightarrow> workers st \<noteq> []) \<and>
    returned st = [] \<and> counter st = 0 \<and> answered st = [] \<and> given_up st = [] \<and> bridge_on st"
proof -
  let ?limit = "min MAX_POOL (length (pool_queries env))"
  obtain conns w1 where e: "expand_pool (pool_connect env) (pool_provider env) (?limit - length dot_conns) dot_conns w = (conns, w1)"
    by force
  obtain ws rest' w2 where s: "spawn_workers (pool_connect env) (pool_provider env) (max (length conns) 1) conns w1 = (ws, rest', w2)"
    by (metis prod_cases3)
  have l: "length dot_conns \<le> length conns" "length conns \<le> MAX_POOL"
    using expand_pool_length [OF e] assms(2) by auto
  have "st = \<lparr>pool_world = w2, counter = 0, workers = ws, returned = [], warm = is_warm, bridge_on = True,
      answered = [], given_up = []\<rparr>" "rest = rest'"
    using assms(1) e s by (simp_all add: pool_start_def Let_def)
  moreover have "dot_conns \<noteq> [] \<Longrightarrow> length conns = max (length conns) 1"
    using l(1) by (cases dot_conns) auto
  ultimately show ?thesis using spawn_workers_form [OF s] l by auto
qed

lemma pool_inv_start:
  assumes "pool_start env is_warm dot_conns w = (st, rest)" and "length dot_conns \<le> MAX_POOL"
  shows "pool_inv env st"
proof -
  note f = pool_start_form [OF assms]
  have ready: "list_all (\<lambda>x. \<exists>c. x = Ready c) ws \<Longrightarrow> sum_list (map hand ws) = {#} \<and> Panicked \<notin> set ws \<and>
      Finished \<notin> set ws \<and> filter (\<lambda>x. x \<noteq> Finished) ws = ws" for ws :: "'a worker list"
    by (induction ws) auto
  show ?thesis
    using f ready [of "workers st"] by (simp add: pool_inv_def taken_def fetched_def active_def)
qed

text \<open>
  Claim C4: a batch of queries under every interleaving of its workers and the stop flag. No worker
  panics; no query is answered or given up twice; every reply in the tunnel is the reply packet of one
  of the batch's queries around some answer; and when all workers have left while the session runs,
  each query of the batch was answered or given up exactly once.
\<close>

theorem pool_each_query_once:
  assumes "queries_ok our_ip env" and "length dot_conns \<le> MAX_POOL"
    and "pool_start env is_warm dot_conns w = (st0, rest)" and "pool_steps env st0 st"
  shows "distinct (map fst (answered st) @ given_up st) \<and> Panicked \<notin> set (workers st) \<and>
    (\<forall>(i, out) \<in> set (answered st). i < length (pool_queries env) \<and>
       (\<exists>r. out = reply_wire (fst (pool_queries env ! i)) r)) \<and>
    (bridge_on st \<and> workers st \<noteq> [] \<and> list_all (\<lambda>w. w = Finished) (workers st) \<longrightarrow>
       mset (map fst (answered st) @ given_up st) = mset [0..<length (pool_queries env)])"
proof -
  have inv: "pool_inv env st"
    using pool_inv_steps [OF assms(4,1)] pool_inv_start [OF assms(3,2)] by blast
  let ?done = "mset (map fst (answered st) @ given_up st)"
  have sub: "taken st \<subseteq># fetched env st" using inv by (simp add: pool_inv_def)
  have "?done \<subseteq># taken st" by (simp add: taken_def)
  then have settled: "?done \<subseteq># fetched env st" using sub by (rule subset_mset.order_trans)
  have "count ?done i \<le> 1" for i
  proof (rule order_trans)
    show "count ?done i \<le> count (fetched env st) i" by (rule mset_subset_eq_count [OF settled])
    show "count (fetched env st) i \<le> 1" by (simp add: fetched_def count_mset_set')
  qed
  then have "distinct (map fst (answered st) @ given_up st)"
    unfolding distinct_count_atmost_1 by (metis count_eq_zero_iff le_antisym less_one not_le set_mset_mset)
  moreover have "i < length (pool_queries env)" if "(i, out) \<in> set (answered st)" for i out
  proof -
    have "i \<in># ?done" using that by force
    then have "i \<in># fetched env st" using settled by (metis mset_subset_eqD)
    then show ?thesis by (simp add: fetched_def)
  qed
  moreover have "?done = mset [0..<length (pool_queries env)]"
    if "bridge_on st" "workers st \<noteq> []" "list_all (\<lambda>w. w = Finished) (workers st)"
  proof -
    have fin: "list_all (\<lambda>w. w = Finished) ws \<Longrightarrow> sum_list (map hand ws) = {#}" for ws :: "'a worker list"
      by (induction ws) auto
    have "Finished \<in> set (workers st)" using that(2,3) by (cases "workers st") auto
    then have "length (pool_queries env) \<le> counter st" using inv that(1) by (simp add: pool_inv_def)
    moreover have "?done = taken st" using fin [OF that(3)] by (simp add: taken_def)
    ultimately show ?thesis using inv that(1) by (simp add: pool_inv_def fetched_def)
  qed
  ultimately show ?thesis using inv by (auto simp: pool_inv_def)
qed

text \<open>One query, one fresh connection, whose answer waits on the stream.\<close>

definition quiet_sys :: "'w sys_calls" where
  "quiet_sys =
     \<lparr>sys_socket = (\<lambda>w. (3, w)), sys_ctl_info = (\<lambda>_ _ w. ((0, 7), w)), sys_connect = (\<lambda>_ _ _ w. (0, w)),
      sys_close = (\<lambda>_ w. w), sys_set_buffers = (\<lambda>_ _ w. w), sys_get_flags = (\<lambda>_ w. (0, w)),
      sys_set_nonblock = (\<lambda>_ _ w. w), sys_read = (\<lambda>_ _ w. (Inl WouldBlock, w)),
      sys_write = (\<lambda>_ d w. (Inr (length d), w)), run_sh = (\<lambda>_ w. (Inr 0, w)), run_scutil = (\<lambda>_ w. w)\<rparr>"

definition one_query :: "wire pool_env" where
  "one_query = \<lparr>pool_sys = quiet_sys, pool_tun = \<lparr>utun_fd = 3, utun_unit = 0, ifname = ''utun0''\<rparr>,
     pool_connect = (\<lambda>_ w. (Inr scripted_tls, w)), pool_provider = Quad9,
     pool_queries = [(sample_query, drop 32 sample_query)]\<rparr>"

definition one_pool :: "wire worker \<Rightarrow> nat \<Rightarrow> wire pool" where
  "one_pool x n = \<lparr>pool_world = \<lparr>written = [], incoming = dot_frame [9]\<rparr>, counter = n, workers = [x], returned = [],
     warm = False, bridge_on = True, answered = [], given_up = []\<rparr>"

lemma one_query_ok: "queries_ok 0x0A000002 one_query"
  by (simp add: queries_ok_def one_query_def is_query_def sample_query_def ihl_of_def u32_to_be_bytes_def)

lemma one_query_start:
  "pool_start one_query False [] \<lparr>written = [], incoming = dot_frame [9]\<rparr> = (one_pool (Ready scripted_tls) 0, [])"
  by (simp add: pool_start_def one_query_def one_pool_def Let_def numeral_eq_Suc)

lemma one_query_run:
  "\<exists>st. pool_steps one_query (one_pool (Ready scripted_tls) 0) st \<and> bridge_on st \<and> workers st = [Finished] \<and>
     answered st = [(0, reply_wire sample_query [9])]"
proof -
  let ?q = "drop 32 sample_query"
  let ?w = "\<lparr>written = dot_frame ?q, incoming = []\<rparr>"
  let ?s1 = "one_pool (Serving scripted_tls 0) 1"
  let ?s2 = "(one_pool (Answering scripted_tls 0 [9]) 1)\<lparr>pool_world := ?w, warm := True\<rparr>"
  let ?s3 = "(one_pool (Ready scripted_tls) 1)\<lparr>pool_world := ?w, warm := True, answered := [(0, reply_wire sample_query [9])]\<rparr>"
  let ?s4 = "?s3\<lparr>workers := [Finished], counter := 2, returned := [scripted_tls]\<rparr>"
  have ask: "dot_query_inner scripted_tls ?q \<lparr>written = [], incoming = dot_frame [9]\<rparr> = (Inr [9], ?w)"
    using dot_query_frame [of "\<lparr>written = [], incoming = dot_frame [9]\<rparr>" "[9]" "[]" ?q] by simp
  have reply: "build_reply sample_query [9] = Ok (reply_wire sample_query [9])"
    by (rule build_reply_ok) (simp_all add: sample_query_def ihl_of_def)
  have "worker_step one_query 0 (one_pool (Ready scripted_tls) 0) = Some ?s1"
    "worker_step one_query 0 ?s1 = Some ?s2"
    "worker_step one_query 0 ?s2 = Some ?s3"
    "worker_step one_query 0 ?s3 = Some ?s4"
    by (simp_all add: worker_step_def one_query_def one_pool_def Let_def dot_answer_def ask reply utun_write_def
        quiet_sys_def numeral_2_eq_2)
  then have "pool_steps one_query (one_pool (Ready scripted_tls) 0) ?s4"
    by (meson converse_rtranclp_into_rtranclp pool_step.work rtranclp.rtrancl_refl)
  then show ?thesis by (intro exI [of _ ?s4]) (simp add: one_pool_def)
qed

theorem pool_each_query_once_witness:
  "\<exists>st. pool_steps one_query (one_pool (Ready scripted_tls) 0) st \<and> workers st = [Finished] \<and>
     mset (map fst (answered st) @ given_up st) = mset [0]"
proof -
  obtain st where st: "pool_steps one_query (one_pool (Ready scripted_tls) 0) st" "bridge_on st" "workers st = [Finished]"
    using one_query_run by blast
  have "length [] \<le> MAX_POOL" by simp
  from pool_each_query_once [OF one_query_ok this one_query_start st(1)] st show ?thesis
    by (auto simp: one_query_def)
qed

section \<open>The workers end\<close>

text \<open>What a worker still has to do with the index it holds, and the batch as a whole.\<close>

fun steps_left :: "'w worker \<Rightarrow> nat" where
  "steps_left (Ready conn) = 1"
| "steps_left (Serving conn i) = 3"
| "steps_left (Answering conn i r) = 2"
| "steps_left Finished = 0"
| "steps_left Panicked = 0"

definition work_left :: "'w pool_env \<Rightarrow> 'w pool \<Rightarrow> nat" where
  "work_left env st = sum_list (map steps_left (workers st)) + 3 * (length (pool_queries env) - counter st)"

text \<open>Runs with their number of worker steps.\<close>

inductive pool_run :: "'w pool_env \<Rightarrow> 'w pool \<Rightarrow> nat \<Rightarrow> 'w pool \<Rightarrow> bool" for env st where
  none: "pool_run env st 0 st"
| work: "pool_run env st n st1 \<Longrightarrow> worker_step env k st1 = Some st2 \<Longrightarrow> pool_run env st (Suc n) st2"
| stop: "pool_run env st n st1 \<Longrightarrow> pool_run env st n (st1\<lparr>bridge_on := False\<rparr>)"

lemma pool_run_steps: "pool_run env st n st' \<Longrightarrow> pool_steps env st st'"
  by (induction rule: pool_run.induct) (auto intro: rtranclp.rtrancl_into_rtrancl)

lemma work_left_update:
  assumes "k < length (workers st)" and "workers st ! k = w"
  shows "sum_list (map steps_left ((workers st)[k := v])) + steps_left w = sum_list (map steps_left (workers st)) + steps_left v"
  using sum_list_map_update [OF assms(1), of steps_left v] assms(2) by simp

lemma work_left_step:
  assumes "worker_step env k st = Some st'" and "queries_ok our_ip env" and "taken st \<subseteq># fetched env st"
  shows "work_left env st' < work_left env st"
  using assms
proof (cases rule: worker_step_cases)
  case (leave conn)
  with work_left_update [OF leave(1,2), of Finished] show ?thesis by (simp add: work_left_def)
next
  case (fetch conn)
  with work_left_update [OF fetch(1,2), of "Serving conn (counter st)"] show ?thesis
    by (simp add: work_left_def)
next
  case (got conn i conn' r w wm)
  with work_left_update [OF got(1,2), of "Answering conn' i r"] show ?thesis by (simp add: work_left_def)
next
  case (drop conn i conn' w)
  with work_left_update [OF drop(1,2), of "Ready conn'"] show ?thesis by (simp add: work_left_def)
next
  case (reply conn i r w)
  with work_left_update [OF reply(1,2), of "Ready conn"] show ?thesis by (simp add: work_left_def)
qed

lemma worker_can_move:
  assumes "k < length (workers st)" and "workers st ! k \<notin> {Finished, Panicked}"
  shows "worker_step env k st \<noteq> None"
  using assms
  by (cases "workers st ! k") (auto simp: worker_step_def Let_def split: prod.splits option.splits outcome.splits)

lemma pool_run_bound:
  assumes "pool_run env st n st'" and "queries_ok our_ip env" and "pool_inv env st"
  shows "n + work_left env st' \<le> work_left env st"
  using assms(1)
proof induction
  case (work n st1 k st2)
  have "pool_inv env st1" using pool_inv_steps [OF pool_run_steps [OF work.hyps(1)] assms(2,3)] .
  then have "work_left env st2 < work_left env st1"
    using work_left_step [OF work.hyps(2) assms(2)] by (simp add: pool_inv_def)
  with work.IH show ?case by simp
qed (simp_all add: work_left_def)

text \<open>
  Claim C16: the batch ends, whatever the scheduler does. In every interleaving the workers make at
  most three steps for each query and one for each worker, and as long as one of them has not left, one
  can move; so the joins return. When they have, every connection a worker held is back, and the pool
  that is kept has at most four.
\<close>

theorem pool_terminates:
  assumes "queries_ok our_ip env" and "length dot_conns \<le> MAX_POOL"
    and "pool_start env is_warm dot_conns w = (st0, rest)" and "pool_run env st0 n st"
  shows "n \<le> 3 * length (pool_queries env) + length (workers st0) \<and>
    ((\<exists>k st'. worker_step env k st = Some st') \<or>
     list_all (\<lambda>w. w = Finished) (workers st) \<and> length (pool_end rest st) = length (workers st0) \<and>
     length (workers st0) \<le> MAX_POOL)"
proof -
  have inv0: "pool_inv env st0" by (rule pool_inv_start [OF assms(3,2)])
  have inv: "pool_inv env st" by (rule pool_inv_steps [OF pool_run_steps [OF assms(4)] assms(1) inv0])
  note f = pool_start_form [OF assms(3,2)]
  have "list_all (\<lambda>x. \<exists>c. x = Ready c) ws \<Longrightarrow> sum_list (map steps_left ws) = length ws" for ws :: "'a worker list"
    by (induction ws) auto
  then have "work_left env st0 = 3 * length (pool_queries env) + length (workers st0)"
    using f by (simp add: work_left_def)
  then have n: "n \<le> 3 * length (pool_queries env) + length (workers st0)"
    using pool_run_bound [OF assms(4,1) inv0] by simp
  have same: "length (workers st) = length (workers st0)"
    using assms(4)
  proof induction
    case (work n st1 k st2)
    then show ?case
      by (auto simp: worker_step_def Let_def split: if_splits worker.splits prod.splits option.splits outcome.splits)
  qed simp_all
  show ?thesis
  proof (cases "list_all (\<lambda>w. w = Finished) (workers st)")
    case True
    then have "active st = 0" by (auto simp: active_def list_all_iff filter_empty_conv)
    with inv have "length (returned st) = length (workers st)" by (simp add: pool_inv_def)
    with True n same f show ?thesis by (simp add: pool_end_def)
  next
    case False
    then obtain k where "k < length (workers st)" "workers st ! k \<noteq> Finished" by (auto simp: list_all_length)
    moreover from this inv have "workers st ! k \<noteq> Panicked" by (metis pool_inv_def nth_mem)
    ultimately show ?thesis using worker_can_move [of k st env] n by auto
  qed
qed

theorem pool_terminates_witness:
  "\<exists>n st. pool_run one_query (one_pool (Ready scripted_tls) 0) n st \<and> n \<le> 4 \<and> workers st = [Finished] \<and>
     length (pool_end [] st) = 1"
proof -
  obtain st where st: "pool_steps one_query (one_pool (Ready scripted_tls) 0) st" "workers st = [Finished]"
    using one_query_run by blast
  from st(1) obtain n where n: "pool_run one_query (one_pool (Ready scripted_tls) 0) n st"
  proof (induction arbitrary: thesis rule: rtranclp_induct)
    case base
    show ?case by (rule base, rule pool_run.none)
  next
    case (step st1 st2)
    obtain m where m: "pool_run one_query (one_pool (Ready scripted_tls) 0) m st1" using step.IH by blast
    from step.hyps(2) show ?case
    proof cases
      case (work k)
      with m step.prems show ?thesis by (blast intro: pool_run.work)
    next
      case stop
      with m step.prems show ?thesis by (blast intro: pool_run.stop)
    qed
  qed
  have "length [] \<le> MAX_POOL" by simp
  from pool_terminates [OF one_query_ok this one_query_start n] n st(2) show ?thesis
    by (intro exI [of _ n] exI [of _ st])
      (auto simp: one_query_def one_pool_def worker_step_def pool_end_def split: if_splits)
qed

end
