(* ===== verification/Resolver.thy ===== *)
theory Resolver
  imports Dot_Pool
begin

text \<open>
  The DNS resolver thread of \<^verbatim>\<open>src/main.rs\<close>: it collects the intercepted queries that are
  waiting into a batch and answers the batch, with DoT through the workers of \<open>Dot_Pool\<close>, with
  DoH through one thread for each query, which share the agent. Again the interleaving is a
  relation; \<open>doh_replies\<close> and \<open>doh_failed\<close> keep what became of each query.
\<close>

section \<open>A batch\<close>

type_synonym query = "u8 list \<times> u8 list"

text \<open>The first query, then everything \<open>try_recv\<close> finds; what the wait returned, and the rest of the channel.\<close>

datatype received = Item query | Timeout | Disconnected

definition collect_batch :: "query \<Rightarrow> query list \<Rightarrow> query list" where
  "collect_batch first waiting = [first] @ waiting"

record resolver_seen =
  res_bridge :: bool
  res_received :: received
  res_waiting :: "query list"

text \<open>The thread's loop: the batches it answers, in order.\<close>

fun resolver_batches :: "resolver_seen list \<Rightarrow> query list list" where
  "resolver_batches [] = []"
| "resolver_batches (s # ss) =
     (if \<not> res_bridge s then []
      else case res_received s of
        Item q \<Rightarrow> collect_batch q (res_waiting s) # resolver_batches ss
      | Timeout \<Rightarrow> resolver_batches ss
      | Disconnected \<Rightarrow> [])"

text \<open>The environment of a DoT batch.\<close>

definition dot_env ::
  "('t, 'w) net_calls \<Rightarrow> 'w sys_calls \<Rightarrow> utun \<Rightarrow> dns_provider \<Rightarrow> query list \<Rightarrow> 'w pool_env" where
  "dot_env net sys tun provider queries =
     \<lparr>pool_sys = sys, pool_tun = tun, pool_connect = create_dot_conn net, pool_provider = provider,
      pool_queries = queries\<rparr>"

section \<open>DNS over HTTPS\<close>

datatype doh_thread = Asking | Got "u8 list" | Over | Doh_Panicked

record 'w doh_env =
  doh_sys :: "'w sys_calls"
  doh_tun :: utun
  doh_agent :: "'w agent option"
  doh_provider :: dns_provider
  doh_queries :: "query list"

record 'w doh_batch =
  doh_world :: 'w
  doh_threads :: "doh_thread list"
  doh_warm :: bool
  doh_replies :: "(nat \<times> u8 list) list"
  doh_failed :: "nat list"

definition doh_start :: "'w doh_env \<Rightarrow> bool \<Rightarrow> 'w \<Rightarrow> 'w doh_batch" where
  "doh_start env is_warm w = \<lparr>doh_world = w, doh_threads = map (\<lambda>_. Asking) (doh_queries env), doh_warm = is_warm,
     doh_replies = [], doh_failed = []\<rparr>"

text \<open>A thread in two steps: ask the provider, write the reply.\<close>

definition doh_step :: "'w doh_env \<Rightarrow> nat \<Rightarrow> 'w doh_batch \<Rightarrow> 'w doh_batch option" where
  "doh_step env k st =
     (if k < length (doh_threads st) then
       (case doh_threads st ! k of
          Asking \<Rightarrow>
            (case (case doh_agent env of
                     Some a \<Rightarrow> doh_resolve a (doh_provider env) (snd (doh_queries env ! k)) (doh_world st)
                   | None \<Rightarrow> (None, doh_world st)) of (resp, w) \<Rightarrow>
              (case resp of
                 Some dns_resp \<Rightarrow>
                   Some (st\<lparr>doh_world := w, doh_warm := True, doh_threads := (doh_threads st)[k := Got dns_resp]\<rparr>)
               | None \<Rightarrow> Some (st\<lparr>doh_world := w, doh_failed := doh_failed st @ [k], doh_threads := (doh_threads st)[k := Over]\<rparr>)))
        | Got dns_resp \<Rightarrow>
            (case build_reply (fst (doh_queries env ! k)) dns_resp of
               Ok reply \<Rightarrow>
                 (case utun_write (doh_sys env) (doh_tun env) reply (doh_world st) of (_, w) \<Rightarrow>
                    Some (st\<lparr>doh_world := w, doh_replies := doh_replies st @ [(k, reply)],
                             doh_threads := (doh_threads st)[k := Over]\<rparr>))
             | _ \<Rightarrow> Some (st\<lparr>doh_threads := (doh_threads st)[k := Doh_Panicked]\<rparr>))
        | Over \<Rightarrow> None
        | Doh_Panicked \<Rightarrow> None)
      else None)"

inductive doh_run :: "'w doh_env \<Rightarrow> 'w doh_batch \<Rightarrow> nat \<Rightarrow> 'w doh_batch \<Rightarrow> bool" for env st where
  none: "doh_run env st 0 st"
| step: "doh_run env st n st1 \<Longrightarrow> doh_step env k st1 = Some st2 \<Longrightarrow> doh_run env st (Suc n) st2"

section \<open>What becomes of a batch\<close>

definition from_host :: "ipv4 \<Rightarrow> 'w doh_env \<Rightarrow> bool" where
  "from_host our_ip env \<longleftrightarrow> list_all (\<lambda>(pkt, _). is_query our_ip pkt) (doh_queries env)"

definition settled :: "'w doh_batch \<Rightarrow> nat list" where
  "settled st = map fst (doh_replies st) @ doh_failed st"

fun doh_left :: "doh_thread \<Rightarrow> nat" where
  "doh_left Asking = 2" | "doh_left (Got r) = 1" | "doh_left Over = 0" | "doh_left Doh_Panicked = 0"

definition doh_inv :: "'w doh_env \<Rightarrow> bool \<Rightarrow> 'w doh_batch \<Rightarrow> bool" where
  "doh_inv env warm0 st \<longleftrightarrow>
     length (doh_threads st) = length (doh_queries env) \<and> Doh_Panicked \<notin> set (doh_threads st) \<and>
     distinct (settled st) \<and> set (settled st) = {k. k < length (doh_threads st) \<and> doh_threads st ! k = Over} \<and>
     (\<forall>(k, out) \<in> set (doh_replies st). \<exists>r. out = reply_wire (fst (doh_queries env ! k)) r) \<and>
     (doh_warm st \<longleftrightarrow> warm0 \<or> doh_replies st \<noteq> [] \<or> (\<exists>r. Got r \<in> set (doh_threads st)))"

lemma doh_step_cases:
  assumes "doh_step env k st = Some st'" and "from_host our_ip env" and "length (doh_threads st) = length (doh_queries env)"
  obtains
    (got) r w where "k < length (doh_threads st)" "doh_threads st ! k = Asking"
      "st' = st\<lparr>doh_world := w, doh_warm := True, doh_threads := (doh_threads st)[k := Got r]\<rparr>"
  | (lost) w where "k < length (doh_threads st)" "doh_threads st ! k = Asking"
      "st' = st\<lparr>doh_world := w, doh_failed := doh_failed st @ [k], doh_threads := (doh_threads st)[k := Over]\<rparr>"
  | (reply) r w where "k < length (doh_threads st)" "doh_threads st ! k = Got r"
      "st' = st\<lparr>doh_world := w, doh_replies := doh_replies st @ [(k, reply_wire (fst (doh_queries env ! k)) r)],
                doh_threads := (doh_threads st)[k := Over]\<rparr>"
proof -
  have k: "k < length (doh_threads st)" using assms(1) by (simp add: doh_step_def split: if_splits)
  show thesis
  proof (cases "doh_threads st ! k")
    case Asking
    obtain resp w where r: "(case doh_agent env of
        Some a \<Rightarrow> doh_resolve a (doh_provider env) (snd (doh_queries env ! k)) (doh_world st)
      | None \<Rightarrow> (None, doh_world st)) = (resp, w)" by force
    show ?thesis
    proof (cases resp)
      case None
      then have "st' = st\<lparr>doh_world := w, doh_failed := doh_failed st @ [k], doh_threads := (doh_threads st)[k := Over]\<rparr>"
        using assms(1) k Asking r by (simp add: doh_step_def)
      then show ?thesis by (rule lost [OF k Asking])
    next
      case (Some dns_resp)
      then have "st' = st\<lparr>doh_world := w, doh_warm := True, doh_threads := (doh_threads st)[k := Got dns_resp]\<rparr>"
        using assms(1) k Asking r by (simp add: doh_step_def)
      then show ?thesis by (rule got [OF k Asking])
    qed
  next
    case (Got r)
    have "is_query our_ip (fst (doh_queries env ! k))"
      using assms(2,3) k by (auto simp: from_host_def list_all_length case_prod_beta)
    then have "build_reply (fst (doh_queries env ! k)) r = Ok (reply_wire (fst (doh_queries env ! k)) r)"
      by (intro build_reply_ok) (auto simp: is_query_def)
    moreover obtain x w where "utun_write (doh_sys env) (doh_tun env) (reply_wire (fst (doh_queries env ! k)) r)
        (doh_world st) = (x, w)" by force
    ultimately have "st' = st\<lparr>doh_world := w, doh_replies := doh_replies st @ [(k, reply_wire (fst (doh_queries env ! k)) r)],
        doh_threads := (doh_threads st)[k := Over]\<rparr>"
      using Got k assms(1) by (simp add: doh_step_def)
    then show ?thesis by (rule reply [OF k Got])
  qed (use k assms(1) in \<open>simp_all add: doh_step_def\<close>)
qed

lemma doh_inv_step:
  assumes "doh_step env k st = Some st'" and "from_host our_ip env" and "doh_inv env warm0 st"
  shows "doh_inv env warm0 st' \<and>
    sum_list (map doh_left (doh_threads st')) < sum_list (map doh_left (doh_threads st))"
proof -
  have len: "length (doh_threads st) = length (doh_queries env)" using assms(3) by (simp add: doh_inv_def)
  have np: "Doh_Panicked \<notin> set ((doh_threads st)[k := v])" if "v \<noteq> Doh_Panicked" for v
    using assms(3) that set_update_subset_insert [of "doh_threads st" k v] by (auto simp: doh_inv_def)
  have less: "sum_list (map doh_left ((doh_threads st)[k := v])) < sum_list (map doh_left (doh_threads st))"
    if "k < length (doh_threads st)" "doh_left v < doh_left (doh_threads st ! k)" for v
    using sum_list_map_update [OF that(1), of doh_left v] that(2) by linarith
  have unsettled: "k \<notin> set (settled st)" if "doh_threads st ! k \<noteq> Over"
    using assms(3) that by (simp add: doh_inv_def)
  have over: "{j. j < length (doh_threads st) \<and> (doh_threads st)[k := v] ! j = Over} =
      (if v = Over then insert k else (\<lambda>s. s)) (set (settled st))"
    if "k < length (doh_threads st)" "doh_threads st ! k \<noteq> Over" for v
    using assms(3) that by (auto simp: doh_inv_def nth_list_update)
  have gots: "(\<exists>r. Got r \<in> set ((doh_threads st)[k := Over])) \<longleftrightarrow> (\<exists>r. Got r \<in> set (doh_threads st))"
    if "doh_threads st ! k = Asking"
    unfolding in_set_conv_nth length_list_update
    by (metis doh_thread.distinct(1) doh_thread.distinct(7) nth_list_update_eq nth_list_update_neq that)
  from assms(1,2) len show ?thesis
  proof (cases rule: doh_step_cases)
    case (got r w)
    then have "Got r \<in> set ((doh_threads st)[k := Got r])" by (simp add: set_update_memI)
    with got np over [OF got(1)] less [OF got(1)] assms(3) show ?thesis
      by (auto simp: doh_inv_def settled_def)
  next
    case (lost w)
    with np over [OF lost(1)] less [OF lost(1)] unsettled gots [OF lost(2)] assms(3) show ?thesis
      by (auto simp: doh_inv_def settled_def simp del: ex_simps)
  next
    case (reply r w)
    then have "Got r \<in> set (doh_threads st)" by (metis nth_mem)
    with reply np over [OF reply(1)] less [OF reply(1)] unsettled assms(3) show ?thesis
      by (auto simp: doh_inv_def settled_def)
  qed
qed

lemma doh_inv_start: "doh_inv env is_warm (doh_start env is_warm w)"
  by (auto simp: doh_inv_def doh_start_def settled_def)

lemma doh_run_inv:
  assumes "doh_run env st0 n st" and "from_host our_ip env" and "doh_inv env is_warm st0"
  shows "doh_inv env is_warm st \<and>
    n + sum_list (map doh_left (doh_threads st)) \<le> sum_list (map doh_left (doh_threads st0))"
  using assms(1)
proof induction
  case (step n st1 k st2)
  with doh_inv_step [OF step.hyps(2) assms(2), of is_warm] show ?case by simp
qed (simp add: assms(3))

lemma doh_can_move:
  assumes "k < length (doh_threads st)" and "doh_threads st ! k \<notin> {Over, Doh_Panicked}"
  shows "doh_step env k st \<noteq> None"
  using assms
  by (cases "doh_threads st ! k") (auto simp: doh_step_def split: prod.splits option.splits outcome.splits)

text \<open>
  Claim C17: a DoH batch under every interleaving of its threads. They make at most two steps for each
  query, so that the joins return; none panics; no query is answered or lost twice, and every reply in
  the tunnel is the reply packet of its own query around some answer; the plain-text path is closed
  exactly when it was before or an answer has come; and when no thread can move, each query was
  answered or lost exactly once.
\<close>

theorem doh_batch_settled:
  assumes "from_host our_ip env" and "doh_run env (doh_start env is_warm w) n st"
  shows "n \<le> 2 * length (doh_queries env) \<and> Doh_Panicked \<notin> set (doh_threads st) \<and> distinct (settled st) \<and>
    (\<forall>(k, out) \<in> set (doh_replies st). k < length (doh_queries env) \<and>
       (\<exists>r. out = reply_wire (fst (doh_queries env ! k)) r)) \<and>
    (doh_warm st \<longleftrightarrow> is_warm \<or> doh_replies st \<noteq> [] \<or> (\<exists>r. Got r \<in> set (doh_threads st))) \<and>
    ((\<exists>k st'. doh_step env k st = Some st') \<or> mset (settled st) = mset [0..<length (doh_queries env)])"
proof -
  have "sum_list (map doh_left (map (\<lambda>_. Asking) qs)) = 2 * length qs" for qs :: "query list"
    by (induction qs) simp_all
  then have inv: "doh_inv env is_warm st" "n \<le> 2 * length (doh_queries env)"
    using doh_run_inv [OF assms(2,1) doh_inv_start] by (simp_all add: doh_start_def)
  then have s: "distinct (settled st)"
    "set (settled st) = {k. k < length (doh_queries env) \<and> doh_threads st ! k = Over}"
    "length (doh_threads st) = length (doh_queries env)" "Doh_Panicked \<notin> set (doh_threads st)"
    by (simp_all add: doh_inv_def)
  have "mset (settled st) = mset [0..<length (doh_queries env)]" if "\<nexists>k st'. doh_step env k st = Some st'"
  proof -
    have "doh_threads st ! k = Over" if "k < length (doh_queries env)" for k
    proof -
      have "doh_step env k st = None" using \<open>\<nexists>k st'. doh_step env k st = Some st'\<close> by auto
      moreover have "doh_threads st ! k \<noteq> Doh_Panicked" using s(3,4) that by (metis nth_mem)
      ultimately show ?thesis using doh_can_move [of k st env] s(3) that by auto
    qed
    then have "set (settled st) = set [0..<length (doh_queries env)]" using s(2) by auto
    then show ?thesis using s(1) distinct_upt set_eq_iff_mset_eq_distinct by blast
  qed
  moreover have "k < length (doh_queries env)" if "(k, out) \<in> set (doh_replies st)" for k out
  proof -
    have "k \<in> set (settled st)" using that by (force simp: settled_def)
    then show ?thesis using s(2) by simp
  qed
  ultimately show ?thesis using inv s(1) by (auto simp: doh_inv_def)
qed

text \<open>One query and an agent that answers it.\<close>

definition one_doh :: "unit doh_env" where
  "one_doh = \<lparr>doh_sys = quiet_sys, doh_tun = \<lparr>utun_fd = 3, utun_unit = 0, ifname = ''utun0''\<rparr>,
     doh_agent = Some (\<lambda>_ _ _ w. (Response (Inr [9]), w)), doh_provider = Quad9,
     doh_queries = [(sample_query, drop 32 sample_query)]\<rparr>"

theorem doh_batch_settled_witness:
  "\<exists>st. doh_run one_doh (doh_start one_doh False ()) 2 st \<and> doh_warm st \<and> settled st = [0] \<and>
     doh_replies st = [(0, reply_wire sample_query [9])]"
proof -
  let ?st = "\<lparr>doh_world = (), doh_threads = [Over], doh_warm = True, doh_replies = [(0, reply_wire sample_query [9])],
    doh_failed = []\<rparr>"
  have host: "from_host 0x0A000002 one_doh"
    by (simp add: from_host_def one_doh_def is_query_def sample_query_def ihl_of_def u32_to_be_bytes_def)
  have "is_query 0x0A000002 sample_query" using host by (simp add: from_host_def one_doh_def)
  then have r: "build_reply sample_query [9] = Ok (reply_wire sample_query [9])"
    by (intro build_reply_ok) (auto simp: is_query_def)
  have 1: "doh_step one_doh 0 (doh_start one_doh False ()) =
      Some ((doh_start one_doh False ())\<lparr>doh_warm := True, doh_threads := [Got [9]]\<rparr>)"
    by (simp add: doh_step_def doh_start_def one_doh_def doh_resolve_def doh_query_with_agent_def)
  have 2: "doh_step one_doh 0 ((doh_start one_doh False ())\<lparr>doh_warm := True, doh_threads := [Got [9]]\<rparr>) = Some ?st"
    using r by (simp add: doh_step_def doh_start_def one_doh_def utun_write_def quiet_sys_def)
  have run: "doh_run one_doh (doh_start one_doh False ()) (Suc (Suc 0)) ?st"
    by (rule doh_run.step [OF doh_run.step [OF doh_run.none 1] 2])
  have "doh_warm ?st \<longleftrightarrow> False \<or> doh_replies ?st \<noteq> [] \<or> (\<exists>r. Got r \<in> set (doh_threads ?st))"
    using doh_batch_settled [OF host run] by blast
  with run show ?thesis by (intro exI [of _ ?st]) (simp add: settled_def numeral_2_eq_2)
qed

end
