(* ===== verification/Ipc.thy ===== *)
theory Ipc
  imports Stats Ipv4
begin

text \<open>
  \<^verbatim>\<open>src/ipc.rs\<close>: the control socket. A client is a non-blocking Unix stream: the bytes it has
  sent, whether its end is open, and what was written to it while its buffer had room. The texts
  of JSON values (\<open>serde_json\<close>) and the check for UTF-8 are parameters, as are the outcomes of
  \<open>bind\<close>, \<open>accept\<close> and \<open>try_clone\<close> (which fail when the process is out of descriptors); the
  names of the fields are the code's.
\<close>

section \<open>State\<close>

datatype ipc_command = No_Command | Stop | Disable | Enable | Status

datatype json =
    JNull
  | JBool bool
  | JNumber rat
  | JString string
  | JArray "json list"
  | JObject "(string \<times> json) list"

record codec =
  utf8_ok :: "string \<Rightarrow> bool"
  json_parse :: "string \<Rightarrow> json option"
  json_print :: "json \<Rightarrow> string option"

record client =
  inbox :: string
  peer_open :: bool
  room :: nat
  outbox :: string

record ipc_server =
  listening :: bool
  clients :: "client list"
  stop_requested :: bool
  disable_requested :: bool
  enable_requested :: bool

definition ipc_new :: "bool \<Rightarrow> ipc_server" where
  "ipc_new bound = \<lparr>listening = bound, clients = [], stop_requested = False, disable_requested = False,
     enable_requested = False\<rparr>"

section \<open>Messages\<close>

text \<open>
  What \<open>derive(Deserialize)\<close> makes of \<open>ClientMsg\<close>: an object with exactly one field
  \<open>type\<close>, a string, among any others; or, as for every such struct, an array of the field's value.
\<close>

definition client_msg :: "json \<Rightarrow> string option" where
  "client_msg j =
     (case j of
        JObject members \<Rightarrow>
          (case filter (\<lambda>(k, _). k = ''type'') members of [(_, JString t)] \<Rightarrow> Some t | _ \<Rightarrow> None)
      | JArray [JString t] \<Rightarrow> Some t
      | _ \<Rightarrow> None)"

text \<open>And \<open>derive(Serialize)\<close> of the two messages to the clients: fields that are \<open>None\<close> are skipped.\<close>

definition stats_msg :: "tether_stats \<Rightarrow> json" where
  "stats_msg s = JObject
     [(''type'', JString ''stats''), (''tx_mbps'', JNumber (tx_mbps s)), (''rx_mbps'', JNumber (rx_mbps s)),
      (''tx_bytes'', JNumber (of_nat (unat (total_tx_bytes s)))), (''rx_bytes'', JNumber (of_nat (unat (total_rx_bytes s)))),
      (''tx_pkts'', JNumber (of_nat (unat (total_tx_pkts s)))), (''rx_pkts'', JNumber (of_nat (unat (total_rx_pkts s))))]"

definition state_msg :: "string \<Rightarrow> string option \<Rightarrow> string option \<Rightarrow> json" where
  "state_msg state ip iface = JObject
     ([(''type'', JString ''state''), (''state'', JString state)] @
      (case ip of Some s \<Rightarrow> [(''ip'', JString s)] | None \<Rightarrow> []) @
      (case iface of Some s \<Rightarrow> [(''iface'', JString s)] | None \<Rightarrow> []))"

definition msg_type :: "codec \<Rightarrow> string \<Rightarrow> string option" where
  "msg_type cd line = (case json_parse cd line of Some j \<Rightarrow> client_msg j | None \<Rightarrow> None)"

text \<open>The form that the README gives for a command is a message without a type.\<close>

lemma client_msg_forms:
  "client_msg (JObject [(''type'', JString t)]) = Some t"
  "client_msg (JObject [(''command'', JString t)]) = None"
  by (simp_all add: client_msg_def)

section \<open>Reading a line\<close>

definition BUF_READER_SIZE :: nat where [simp]: "BUF_READER_SIZE = 8192"

definition line_feed :: char where [simp]: "line_feed = CHR 0x0A"

text \<open>One read: what is there, the end of the stream (an empty chunk), or \<open>WouldBlock\<close> (\<open>None\<close>).\<close>

definition read_chunk :: "client \<Rightarrow> string option \<times> client" where
  "read_chunk c =
     (if inbox c \<noteq> [] then (Some (take BUF_READER_SIZE (inbox c)), c\<lparr>inbox := drop BUF_READER_SIZE (inbox c)\<rparr>)
      else if peer_open c then (None, c) else (Some [], c))"

text \<open>
  \<open>BufReader::read_line\<close> on a fresh reader: chunks until one has a line_feed or the stream ends.
  What a chunk holds behind the line_feed stays in the reader, which the caller drops. An error
  returns no line, though bytes were taken.
\<close>

function read_line_from :: "client \<Rightarrow> string \<Rightarrow> string option \<times> client" where
  "read_line_from c acc =
     (case read_chunk c of
        (None, c) \<Rightarrow> (None, c)
      | (Some chunk, c') \<Rightarrow>
          if chunk = [] then (Some acc, c')
          else if line_feed \<in> set chunk
          then (Some (acc @ takeWhile (\<lambda>x. x \<noteq> line_feed) chunk @ [line_feed]), c')
          else read_line_from c' (acc @ chunk))"
  by pat_completeness auto

termination
  by (relation "measure (\<lambda>(c, _). length (inbox c))") (auto simp: read_chunk_def split: if_splits)

declare read_line_from.simps [simp del]

definition read_line :: "codec \<Rightarrow> client \<Rightarrow> string option \<times> client" where
  "read_line cd c = (case read_line_from c [] of
     (Some line, c) \<Rightarrow> (if utf8_ok cd line then Some line else None, c) | (None, c) \<Rightarrow> (None, c))"

section \<open>Polling\<close>

text \<open>The closure of \<open>retain_mut\<close>: the request flags, and the client if it is kept.\<close>

definition take_request :: "string \<Rightarrow> ipc_server \<Rightarrow> ipc_server" where
  "take_request t st =
     (if t = ''stop'' then st\<lparr>stop_requested := True\<rparr>
      else if t = ''disable'' then st\<lparr>disable_requested := True\<rparr>
      else if t = ''enable'' then st\<lparr>enable_requested := True\<rparr>
      else st)"

definition poll_client :: "codec \<Rightarrow> client \<Rightarrow> ipc_server \<Rightarrow> client option \<times> ipc_server" where
  "poll_client cd c st =
     (case read_line cd c of
        (None, c) \<Rightarrow> (None, st)
      | (Some line, c) \<Rightarrow>
          if line = [] then (None, st)
          else (Some c, case msg_type cd line of None \<Rightarrow> st | Some t \<Rightarrow> take_request t st))"

fun poll_clients :: "codec \<Rightarrow> bool \<Rightarrow> client list \<Rightarrow> ipc_server \<Rightarrow> (client list \<times> ipc_server) outcome" where
  "poll_clients cd can_clone [] st = Ok ([], st)"
| "poll_clients cd can_clone (c # cs) st =
     (if \<not> can_clone then Panic
      else case poll_client cd c st of (kept, st) \<Rightarrow>
        map_ok (\<lambda>(cs, st). ((case kept of None \<Rightarrow> cs | Some c \<Rightarrow> c # cs), st)) (poll_clients cd can_clone cs st))"

definition ipc_poll ::
  "codec \<Rightarrow> bool \<Rightarrow> client option \<Rightarrow> ipc_server \<Rightarrow> (ipc_command \<times> ipc_server) outcome" where
  "ipc_poll cd can_clone accepted st =
     (if stop_requested st then Ok (Stop, st\<lparr>stop_requested := False\<rparr>)
      else if disable_requested st then Ok (Disable, st\<lparr>disable_requested := False\<rparr>)
      else if enable_requested st then Ok (Enable, st\<lparr>enable_requested := False\<rparr>)
      else
        let st = (case accepted of
                    Some c \<Rightarrow> if listening st then st\<lparr>clients := clients st @ [c]\<rparr> else st
                  | None \<Rightarrow> st) in
        and_then (poll_clients cd can_clone (clients st) st) (\<lambda>(cs, st).
        Ok (No_Command, st\<lparr>clients := cs\<rparr>)))"

section \<open>Broadcasting\<close>

text \<open>
  \<open>write_all\<close> stops where the buffer is full; its result is dropped, so that a client leaves
  the list only when its stream cannot be cloned.
\<close>

definition write_client :: "string \<Rightarrow> client \<Rightarrow> client" where
  "write_client data c =
     (if peer_open c
      then c\<lparr>outbox := outbox c @ take (room c) data, room := room c - length data\<rparr> else c)"

definition broadcast :: "bool \<Rightarrow> string \<Rightarrow> ipc_server \<Rightarrow> ipc_server" where
  "broadcast can_clone data st =
     st\<lparr>clients := (if can_clone then map (write_client data) (clients st) else [])\<rparr>"

definition send_message :: "codec \<Rightarrow> bool \<Rightarrow> json \<Rightarrow> ipc_server \<Rightarrow> ipc_server" where
  "send_message cd can_clone msg st =
     (case json_print cd msg of Some json \<Rightarrow> broadcast can_clone (json @ [line_feed]) st | None \<Rightarrow> st)"

definition send_stats :: "codec \<Rightarrow> bool \<Rightarrow> tether_stats \<Rightarrow> ipc_server \<Rightarrow> ipc_server" where
  "send_stats cd can_clone stats = send_message cd can_clone (stats_msg stats)"

definition send_state ::
  "codec \<Rightarrow> bool \<Rightarrow> string \<Rightarrow> string option \<Rightarrow> string option \<Rightarrow> ipc_server \<Rightarrow> ipc_server" where
  "send_state cd can_clone state ip iface = send_message cd can_clone (state_msg state ip iface)"

section \<open>What arrives\<close>

text \<open>
  Between two polls clients send: for each, in the order of the list, the bytes and whether its
  end stays open; those without an entry are silent. Nothing follows the end of a stream.
\<close>

fun arrive :: "(string \<times> bool) list \<Rightarrow> client list \<Rightarrow> client list" where
  "arrive ((s, stays) # sent) (c # cs) =
     (if peer_open c then c\<lparr>inbox := inbox c @ s, peer_open := stays\<rparr> else c) # arrive sent cs"
| "arrive sent cs = cs"

definition hear :: "(string \<times> bool) list \<Rightarrow> ipc_server \<Rightarrow> ipc_server" where
  "hear sent st = st\<lparr>clients := arrive sent (clients st)\<rparr>"

section \<open>What a poll reads\<close>

definition first_line :: "string \<Rightarrow> string" where
  "first_line s = takeWhile (\<lambda>x. x \<noteq> line_feed) s @ (if line_feed \<in> set s then [line_feed] else [])"

lemma first_line_append:
  "line_feed \<notin> set s \<Longrightarrow> first_line (s @ t) = s @ first_line t"
  "line_feed \<in> set s \<Longrightarrow> first_line (s @ t) = first_line s"
  by (induction s) (auto simp: first_line_def)

lemma read_line_from_result:
  "fst (read_line_from c acc) =
    (if line_feed \<in> set (inbox c) \<or> \<not> peer_open c then Some (acc @ first_line (inbox c)) else None)"
proof (induction c acc rule: read_line_from.induct)
  case (1 c acc)
  let ?n = BUF_READER_SIZE
  let ?h = "take ?n (inbox c)" and ?t = "drop ?n (inbox c)"
  have split: "set (inbox c) = set ?h \<union> set ?t" "first_line (inbox c) = first_line (?h @ ?t)"
    by (simp_all flip: set_append del: BUF_READER_SIZE_def)
  show ?case
  proof (cases "inbox c = []")
    case True
    then show ?thesis
      by (simp add: read_line_from.simps [of c acc] read_chunk_def first_line_def)
  next
    case False
    then have h: "?h \<noteq> []" by simp
    have chunk: "read_chunk c = (Some ?h, c\<lparr>inbox := ?t\<rparr>)" using False by (simp add: read_chunk_def)
    show ?thesis
    proof (cases "line_feed \<in> set ?h")
      case True
      then show ?thesis
        using h chunk split first_line_append(2) [OF True, of ?t]
        by (simp add: read_line_from.simps [of c acc] first_line_def del: BUF_READER_SIZE_def line_feed_def)
    next
      case no: False
      have "read_line_from c acc = read_line_from (c\<lparr>inbox := ?t\<rparr>) (acc @ ?h)"
        using h no chunk by (simp add: read_line_from.simps [of c acc] del: BUF_READER_SIZE_def line_feed_def)
      moreover have "fst (read_line_from (c\<lparr>inbox := ?t\<rparr>) (acc @ ?h)) =
          (if line_feed \<in> set ?t \<or> \<not> peer_open c then Some ((acc @ ?h) @ first_line ?t) else None)"
        using "1" [OF chunk [symmetric] refl h no] by (simp del: BUF_READER_SIZE_def line_feed_def)
      ultimately show ?thesis
        using no split first_line_append(1) [OF no, of ?t] by (simp del: BUF_READER_SIZE_def line_feed_def)
    qed
  qed
qed

text \<open>Who stays a client, what it asks for, and what is left of it.\<close>

definition kept :: "codec \<Rightarrow> client \<Rightarrow> bool" where
  "kept cd c \<longleftrightarrow> inbox c \<noteq> [] \<and> (line_feed \<in> set (inbox c) \<or> \<not> peer_open c) \<and> utf8_ok cd (first_line (inbox c))"

definition asked :: "codec \<Rightarrow> client \<Rightarrow> string option" where
  "asked cd c = (if kept cd c then msg_type cd (first_line (inbox c)) else None)"

definition after_line :: "client \<Rightarrow> client" where
  "after_line c = snd (read_line_from c [])"

lemma first_line_Nil [simp]: "first_line [] = []" "first_line s = [] \<longleftrightarrow> s = []"
  by (cases s; simp add: first_line_def)+

lemma poll_client_form:
  "poll_client cd c st =
    (if kept cd c then Some (after_line c) else None,
     case asked cd c of None \<Rightarrow> st | Some t \<Rightarrow> take_request t st)"
proof (cases "line_feed \<in> set (inbox c) \<or> \<not> peer_open c")
  case True
  then obtain c' where r: "read_line_from c [] = (Some (first_line (inbox c)), c')"
    using read_line_from_result [of c "[]"] by (cases "read_line_from c []") auto
  show ?thesis
  proof (cases "inbox c = []")
    case e: True
    have "read_line cd c = (Some [], c') \<or> read_line cd c = (None, c')"
      using r by (simp add: read_line_def e)
    then show ?thesis by (auto simp: poll_client_def kept_def asked_def e)
  next
    case False
    then show ?thesis
      using r True by (simp add: poll_client_def read_line_def kept_def asked_def after_line_def)
  qed
next
  case False
  then obtain c' where "read_line_from c [] = (None, c')"
    using read_line_from_result [of c "[]"] by (cases "read_line_from c []") auto
  with False show ?thesis
    by (simp add: poll_client_def read_line_def kept_def asked_def)
qed

text \<open>A line that is there is not changed by what follows it.\<close>

lemma asked_later:
  assumes "asked cd c = Some t" and "peer_open c"
  shows "asked cd (c\<lparr>inbox := inbox c @ s, peer_open := stays\<rparr>) = Some t"
proof -
  have "kept cd c" using assms(1) by (auto simp: asked_def split: if_splits)
  with assms(2) have "inbox c \<noteq> []" "line_feed \<in> set (inbox c)" "utf8_ok cd (first_line (inbox c))"
    by (simp_all add: kept_def)
  with assms(1) \<open>kept cd c\<close> first_line_append(2) [of "inbox c" s] show ?thesis
    by (simp add: asked_def kept_def del: line_feed_def)
qed

lemma arrive_asked:
  "c \<in> set cs \<Longrightarrow> asked cd c = Some t \<Longrightarrow> \<exists>c'\<in>set (arrive sent cs). asked cd c' = Some t"
proof (induction sent cs rule: arrive.induct)
  case (1 s stays sent c1 cs)
  then show ?case
    using asked_later [where c = c1 and s = s and stays = stays] by (cases "c = c1") (auto split: if_splits)
qed auto

definition requests_in :: "codec \<Rightarrow> client list \<Rightarrow> string set" where
  "requests_in cd cs = {t. Some t \<in> asked cd ` set cs}"

definition add_requests :: "string set \<Rightarrow> ipc_server \<Rightarrow> ipc_server" where
  "add_requests ts st = st\<lparr>stop_requested := stop_requested st \<or> ''stop'' \<in> ts,
     disable_requested := disable_requested st \<or> ''disable'' \<in> ts,
     enable_requested := enable_requested st \<or> ''enable'' \<in> ts\<rparr>"

lemma poll_clients_form:
  "poll_clients cd True cs st = Ok (map after_line (filter (kept cd) cs), add_requests (requests_in cd cs) st)"
proof (induction cs arbitrary: st)
  case Nil
  then show ?case by (simp add: add_requests_def requests_in_def)
next
  case (Cons c cs)
  have "add_requests (requests_in cd cs) (case asked cd c of None \<Rightarrow> st | Some t \<Rightarrow> take_request t st) =
      add_requests (requests_in cd (c # cs)) st"
    by (auto simp: add_requests_def requests_in_def take_request_def split: option.split)
  then show ?case by (simp add: Cons.IH poll_client_form)
qed

section \<open>Requests as a queue\<close>

text \<open>
  What the main loop relies on: requests are reported one per poll, in a fixed order, and a poll
  without a pending request reports none.
\<close>

fun poll_times :: "('s \<Rightarrow> (ipc_command \<times> 's) outcome) \<Rightarrow> nat \<Rightarrow> 's \<Rightarrow> (ipc_command list \<times> 's) outcome" where
  "poll_times poll 0 s = Ok ([], s)"
| "poll_times poll (Suc n) s =
     and_then (poll s) (\<lambda>(c, s). map_ok (\<lambda>(cs, s). (c # cs, s)) (poll_times poll n s))"

locale command_source =
  fixes poll :: "'s \<Rightarrow> (ipc_command \<times> 's) outcome"
    and pending :: "'s \<Rightarrow> ipc_command list"
  assumes poll_pending: "pending s = c # cs \<Longrightarrow> \<exists>s'. poll s = Ok (c, s') \<and> pending s' = cs"
    and poll_idle: "pending s = [] \<Longrightarrow> \<exists>s'. poll s = Ok (No_Command, s')"
begin

lemma poll_total: "no_fault (poll s)"
  using poll_pending [of s] poll_idle [of s] by (cases "pending s") force+

lemma poll_drains: "\<exists>s'. poll_times poll (length (pending s)) s = Ok (pending s, s') \<and> pending s' = []"
proof (induction "pending s" arbitrary: s)
  case Nil
  then show ?case by (metis list.size(3) poll_times.simps(1))
next
  case (Cons c cs)
  from Cons.hyps(2) have e: "pending s = c # cs" by simp
  obtain s1 where s1: "poll s = Ok (c, s1)" "pending s1 = cs" using poll_pending [OF e] by blast
  with Cons.hyps(1) [of s1] obtain s2 where "poll_times poll (length cs) s1 = Ok (cs, s2)" "pending s2 = []" by auto
  with s1 e show ?case by simp
qed

text \<open>After a poll that found nothing pending, whatever it read is reported by the following ones.\<close>

lemma poll_after_idle:
  assumes "pending s = []" and "poll s = Ok (No_Command, s1)"
  shows "\<exists>s'. poll_times poll (Suc (length (pending s1))) s = Ok (No_Command # pending s1, s') \<and> pending s' = []"
  using poll_drains [of s1] assms by auto

end

definition requests :: "ipc_server \<Rightarrow> ipc_command list" where
  "requests st = (if stop_requested st then [Stop] else []) @ (if disable_requested st then [Disable] else []) @
     (if enable_requested st then [Enable] else [])"

lemma ipc_poll_pending:
  "requests st = c # cs \<Longrightarrow> \<exists>st'. ipc_poll cd can_clone accepted st = Ok (c, st') \<and> requests st' = cs \<and> clients st' = clients st"
  by (auto simp: requests_def ipc_poll_def split: if_splits)

definition with_accepted :: "client option \<Rightarrow> ipc_server \<Rightarrow> client list" where
  "with_accepted accepted st =
     clients st @ (case accepted of Some c \<Rightarrow> if listening st then [c] else [] | None \<Rightarrow> [])"

lemma ipc_poll_idle:
  assumes "requests st = []"
  shows "ipc_poll cd True accepted st = Ok (No_Command,
    (add_requests (requests_in cd (with_accepted accepted st)) st)
      \<lparr>clients := map after_line (filter (kept cd) (with_accepted accepted st))\<rparr>)"
  using assms
  by (cases accepted)
    (auto simp: requests_def ipc_poll_def Let_def poll_clients_form with_accepted_def add_requests_def split: if_splits)

interpretation ipc: command_source "ipc_poll cd True accepted" requests for cd accepted
  by unfold_locales (use ipc_poll_pending ipc_poll_idle in blast)+

text \<open>The commands among the requests, in the order they are reported.\<close>

definition in_order :: "string set \<Rightarrow> ipc_command list" where
  "in_order ts = (if ''stop'' \<in> ts then [Stop] else []) @ (if ''disable'' \<in> ts then [Disable] else []) @
     (if ''enable'' \<in> ts then [Enable] else [])"

lemma requests_add: "requests st = [] \<Longrightarrow> requests (add_requests ts st) = in_order ts"
  by (simp add: requests_def add_requests_def in_order_def split: if_splits)

lemma requests_idle:
  assumes "requests st = []"
  shows "\<exists>st'. ipc_poll cd True accepted st = Ok (No_Command, st') \<and>
    clients st' = map after_line (filter (kept cd) (with_accepted accepted st)) \<and>
    requests st' = in_order (requests_in cd (with_accepted accepted st))"
proof -
  have "requests (st'\<lparr>clients := cs\<rparr>) = requests st'" for st' cs by (simp add: requests_def)
  then show ?thesis
    using ipc_poll_idle [OF assms, of cd accepted] requests_add [OF assms, where ts = "requests_in cd (with_accepted accepted st)"]
    by simp
qed

text \<open>
  Claim C15: polling implements a queue of requests over the clients' lines. A pending request is
  reported, stop before disable before enable, and nothing is read; with none pending the poll
  accepts a client, reads one line from each, and keeps exactly the clients whose line ended, by a
  newline or by the end of the stream, and was UTF-8; the types of those lines are the new requests.
  The type of a line is the field \<open>type\<close> of its JSON object; an object with the field \<open>command\<close>
  instead, which is what the README says to send, asks for nothing.
\<close>

theorem ipc_poll_exact:
  "(case requests st of
     c # cs \<Rightarrow> \<exists>st'. ipc_poll cd can_clone accepted st = Ok (c, st') \<and> requests st' = cs \<and> clients st' = clients st
   | [] \<Rightarrow> \<exists>st'. ipc_poll cd True accepted st = Ok (No_Command, st') \<and>
       clients st' = map after_line (filter (kept cd) (with_accepted accepted st)) \<and>
       requests st' = in_order (requests_in cd (with_accepted accepted st))) \<and>
   client_msg (JObject [(''type'', JString t)]) = Some t \<and>
   client_msg (JObject [(''command'', JString t)]) = None"
  using requests_idle ipc_poll_pending client_msg_forms by (auto split: list.split)

text \<open>
  A command is not lost and not repeated. If a client that is kept has sent a stop, disable
  or enable line when a server without pending requests polls, the polls after this one report each of
  the commands sent, once, and then nothing is pending.
\<close>

lemma ipc_commands_reported:
  assumes "requests st = []" and "rs = in_order (requests_in cd (with_accepted accepted st))"
  shows "\<exists>st'. poll_times (ipc_poll cd True accepted) (Suc (length rs)) st = Ok (No_Command # rs, st') \<and>
    requests st' = []"
proof -
  obtain st1 where "ipc_poll cd True accepted st = Ok (No_Command, st1)" "requests st1 = rs"
    using requests_idle [OF assms(1)] assms(2) by blast
  with ipc.poll_after_idle [OF assms(1), of cd accepted st1] show ?thesis by blast
qed

text \<open>A parser for objects with one string in them, the text of such a line, and its sender.\<close>

definition quote :: char where [simp]: "quote = CHR 0x22"

definition json_line :: "string \<Rightarrow> string \<Rightarrow> string" where
  "json_line k v = [CHR 0x7B, quote] @ k @ [quote, CHR 0x3A, quote] @ v @ [quote, CHR 0x7D, line_feed]"

definition parse_one :: "string \<Rightarrow> json option" where
  "parse_one l =
     (let k = takeWhile (\<lambda>c. c \<noteq> quote) (drop 2 l);
          v = takeWhile (\<lambda>c. c \<noteq> quote) (drop 3 (drop (length k) (drop 2 l))) in
      if l = json_line k v then Some (JObject [(k, JString v)]) else None)"

definition tiny_codec :: codec where
  "tiny_codec = \<lparr>utf8_ok = (\<lambda>_. True), json_parse = parse_one, json_print = (\<lambda>_. Some ''null'')\<rparr>"

lemma parse_json_line:
  assumes "quote \<notin> set k" and "quote \<notin> set v"
  shows "parse_one (json_line k v) = Some (JObject [(k, JString v)])"
proof -
  have "takeWhile (\<lambda>c. c \<noteq> quote) (k @ quote # r) = k" "takeWhile (\<lambda>c. c \<noteq> quote) (v @ quote # r) = v" for r
    using assms by (simp_all add: takeWhile_tail) (metis (mono_tags, lifting) append_Nil2 takeWhile_eq_all_conv)+
  then show ?thesis by (simp add: parse_one_def json_line_def Let_def)
qed

lemma tiny_commands:
  "json_parse tiny_codec (json_line ''type'' ''stop'') = Some (JObject [(''type'', JString ''stop'')])"
  by (simp add: tiny_codec_def parse_json_line)

definition sender :: "string \<Rightarrow> client" where
  "sender s = \<lparr>inbox = s, peer_open = True, room = 100, outbox = []\<rparr>"

text \<open>
  A client that has connected but sent nothing yet, and one whose line is still incomplete, are
  dropped by the poll that finds them so; what a client sends behind its first line in one burst
  is lost with the reader.
\<close>

lemma silent_client_dropped: "peer_open c \<Longrightarrow> line_feed \<notin> set (inbox c) \<Longrightarrow> \<not> kept cd c"
  by (simp add: kept_def)

lemma readme_form_ignored:
  "json_parse cd (first_line (inbox c)) = Some (JObject [(''command'', JString t)]) \<Longrightarrow> asked cd c = None"
  by (simp add: asked_def msg_type_def client_msg_forms)

lemma burst_loses_lines:
  "after_line (sender (''stop'' @ [line_feed] @ ''disable'' @ [line_feed])) = sender []"
  by (simp add: after_line_def sender_def read_line_from.simps [of _ "[]"] read_chunk_def)

end
