(* ===== verification/Session.thy ===== *)
theory Session
  imports Proto_Rndis Arp Dhcp Dns_Proxy Utun Ipc Tx_Path
begin

text \<open>
  \<^verbatim>\<open>src/main.rs\<close>: a tethering session from the device to the network and back
  (\<open>run_session\<close>), and the loop around it (\<open>main\<close>). The world has two parts, the USB side \<open>'u\<close>
  of \<open>nusb\<close> and the system side \<open>'n\<close> of \<open>sys_calls\<close>. The threads a session starts are the
  theories \<open>Io_Loop\<close>, \<open>Tx_Path\<close> and \<open>Dot_Pool\<close>; here is what runs before, beside and after them.
  Sleeping, signals and logging are left out, times are milliseconds.
\<close>

section \<open>Setting up\<close>

definition set_dns :: "'n sys_calls \<Rightarrow> ipv4 \<Rightarrow> ipv4 \<Rightarrow> 'n \<Rightarrow> 'n" where
  "set_dns sys dns1 dns2 n =
     (let script = ''d.init'' @ nl @ ''d.add ServerAddresses * '' @ show_ip dns1 @ '' '' @ show_ip dns2 @ nl @
            ''set State:/Network/Global/DNS'' @ nl @ ''quit'' @ nl;
          n = run_scutil sys script n in
      snd (run_sh sys ''dscacheutil -flushcache 2>/dev/null; killall -HUP mDNSResponder 2>/dev/null'' n))"

record addresses =
  sess_ip :: ipv4
  sess_gateway :: ipv4
  sess_netmask :: ipv4
  sess_dns1 :: ipv4
  sess_dns2 :: ipv4

definition lease_addresses :: "dhcp_lease \<Rightarrow> addresses" where
  "lease_addresses l = \<lparr>sess_ip = lease_ip l, sess_gateway = lease_gateway l, sess_netmask = lease_netmask l,
     sess_dns1 = lease_dns1 l, sess_dns2 = lease_dns2 l\<rparr>"

definition fallback_addresses :: addresses where
  "fallback_addresses = \<lparr>sess_ip = ipv4_new 192 168 42 100, sess_gateway = ipv4_new 192 168 42 129,
     sess_netmask = ipv4_new 255 255 255 0, sess_dns1 = ipv4_new 8 8 8 8, sess_dns2 = ipv4_new 8 8 4 4\<rparr>"

text \<open>The static address of the configuration, else a lease, else the defaults.\<close>

definition choose_addresses ::
  "('d, 'i, 'u) nusb \<Rightarrow> 'i usb_device \<Rightarrow> mac \<Rightarrow> tether_config \<Rightarrow> ('u, addresses) io" where
  "choose_addresses nu usb device_mac config =
     (case static_ip config of
        Some ip \<Rightarrow> io_lift (Ok
          \<lparr>sess_ip = ip,
           sess_gateway = (case gateway config of Some gw \<Rightarrow> gw | None \<Rightarrow> ipv4_new 192 168 42 129),
           sess_netmask = netmask config, sess_dns1 = ipv4_new 8 8 8 8, sess_dns2 = ipv4_new 8 8 4 4\<rparr>)
      | None \<Rightarrow>
          io_then (io_try (discover nu usb device_mac)) (\<lambda>r.
            case r of Inr lease \<Rightarrow> io_lift (Ok (lease_addresses lease))
            | Inl _ \<Rightarrow> io_lift (Ok fallback_addresses)))"

text \<open>The device side: find it, initialise the driver, get addresses. \<open>None\<close> is \<open>return false\<close>.\<close>

definition device_up ::
  "('d, 'i, 'u) nusb \<Rightarrow> tether_config \<Rightarrow> ('u, ('i usb_device \<times> rndis_state \<times> addresses) option) io" where
  "device_up nu config =
     io_then (io_try (find_rndis nu)) (\<lambda>d.
     case d of Inl _ \<Rightarrow> io_lift (Ok None)
     | Inr usb \<Rightarrow>
     io_then (io_try (driver_init nu usb driver_new)) (\<lambda>r.
     case r of Inl _ \<Rightarrow> io_lift (Ok None)
     | Inr drv \<Rightarrow>
     io_then (choose_addresses nu usb (driver_mac drv) config) (\<lambda>a.
     io_lift (Ok (Some (usb, drv, a))))))"

text \<open>The network side: interface, addresses, DNS, service, routes.\<close>

definition network_dns :: "'n sys_calls \<Rightarrow> tether_config \<Rightarrow> string \<Rightarrow> addresses \<Rightarrow> 'n \<Rightarrow> 'n" where
  "network_dns sys config iface a n =
     (if \<not> no_dns config then
        (let (cfg_dns1, cfg_dns2) = (if dns_mode config \<noteq> System then (sess_dns1 a, sess_dns1 a)
                                     else (sess_dns1 a, sess_dns2 a));
             n = set_dns sys cfg_dns1 cfg_dns2 n in
         register_service sys iface (show_ip (sess_ip a)) (show_ip (sess_gateway a)) (show_ip (sess_netmask a))
           (show_ip cfg_dns1) (show_ip cfg_dns2) n)
      else if \<not> no_route config then
        register_service sys iface (show_ip (sess_ip a)) (show_ip (sess_gateway a)) (show_ip (sess_netmask a))
          [] [] n
      else n)"

definition network_up :: "'n sys_calls \<Rightarrow> tether_config \<Rightarrow> addresses \<Rightarrow> ('n, utun option) io" where
  "network_up sys config a =
     io_then (io_try (utun_create sys)) (\<lambda>t.
     case t of Inl _ \<Rightarrow> io_lift (Ok None)
     | Inr tun \<Rightarrow>
     io_then (io_try (utun_configure sys tun (show_ip (sess_ip a)) (show_ip (sess_gateway a)) (show_ip (sess_netmask a))))
       (\<lambda>c.
     case c of Inl _ \<Rightarrow> (\<lambda>n. (Ok None, utun_drop sys tun n))
     | Inr _ \<Rightarrow>
     (\<lambda>n. let n = network_dns sys config (ifname tun) a n;
              n = (if \<not> no_route config
                   then snd (utun_set_default_route sys tun (show_ip (sess_gateway a)) n) else n) in
          (Ok (Some tun), n))))"

text \<open>The state of a session once it is active.\<close>

record 'i session =
  sess_usb :: "'i usb_device"
  sess_drv :: rndis_state
  sess_addr :: addresses
  sess_tun :: utun

definition session_up ::
  "('d, 'i, 'u) nusb \<Rightarrow> 'n sys_calls \<Rightarrow> tether_config \<Rightarrow> ('u \<times> 'n, 'i session option) io" where
  "session_up nu sys config = (\<lambda>(u, n).
     case device_up nu config u of
       (Ok None, u) \<Rightarrow> (Ok None, (u, n))
     | (Ok (Some (usb, drv, a)), u) \<Rightarrow>
         (case network_up sys config a n of
            (Ok None, n) \<Rightarrow> (Ok None, (u, n))
          | (Ok (Some tun), n) \<Rightarrow>
              (case send_gratuitous nu usb (driver_mac drv) (sess_ip a) u of
                 (Panic, u) \<Rightarrow> (Panic, (u, n))
               | (Undefined, u) \<Rightarrow> (Undefined, (u, n))
               | (_, u) \<Rightarrow> (Ok (Some \<lparr>sess_usb = usb, sess_drv = drv, sess_addr = a, sess_tun = tun\<rparr>), (u, n)))
          | (Err e, n) \<Rightarrow> (Err e, (u, n)) | (Panic, n) \<Rightarrow> (Panic, (u, n)) | (Undefined, n) \<Rightarrow> (Undefined, (u, n)))
     | (Err e, u) \<Rightarrow> (Err e, (u, n)) | (Panic, u) \<Rightarrow> (Panic, (u, n)) | (Undefined, u) \<Rightarrow> (Undefined, (u, n)))"

section \<open>Tearing down\<close>

text \<open>After the threads have been joined; the interface closes with the last reference to it.\<close>

definition global_dns_script :: string where
  "global_dns_script = ''remove State:/Network/Global/DNS'' @ nl @ ''quit'' @ nl"

definition network_down :: "'n sys_calls \<Rightarrow> tether_config \<Rightarrow> utun \<Rightarrow> 'n \<Rightarrow> 'n" where
  "network_down sys config tun n =
     (let n = (if \<not> no_route config then
                 (let n = snd (run_sh sys ''route delete -net 0.0.0.0/1 2>/dev/null'' n) in
                  snd (run_sh sys ''route delete -net 128.0.0.0/1 2>/dev/null'' n))
               else n);
          n = unregister_service sys n;
          n = (if \<not> no_dns config then run_scutil sys global_dns_script n else n) in
      utun_drop sys tun n)"

section \<open>What a session does to the network\<close>

text \<open>The two prefixes that cover all addresses, and the keys of the store.\<close>

definition halves :: "string set" where
  "halves = {''0.0.0.0/1'', ''128.0.0.0/1''}"

definition global_key :: string where
  "global_key = ''State:/Network/Global/DNS''"

definition service_keys :: "string set" where
  "service_keys = {service_key ''IPv4'', service_key ''DNS'', service_key ''Interface''}"

lemma shell_run:
  "store_keys (snd (run_sh (scripted_sys busy) cmd n)) = store_keys n"
  "open_fds (snd (run_sh (scripted_sys busy) cmd n)) = open_fds n"
  "routes_of (snd (run_sh (scripted_sys busy) cmd n)) = route_effect cmd (routes_of n)"
  "fst (run_sh (scripted_sys busy) cmd n) = Inr 0"
  "store_keys (run_scutil (scripted_sys busy) script n) = script_effect script (store_keys n)"
  "open_fds (run_scutil (scripted_sys busy) script n) = open_fds n"
  "routes_of (run_scutil (scripted_sys busy) script n) = routes_of n"
  by (simp_all add: scripted_sys_def)

lemma show_ip_chars: "c \<in> set (show_ip ip) \<Longrightarrow> is_digit c \<or> c = CHR ''.''"
proof -
  assume c: "c \<in> set (show_ip ip)"
  obtain w x y z where ip: "ip = ipv4_new w x y z" by (rule ipv4_cases)
  show ?thesis
    using c show_nat_digits [of "unat w"] show_nat_digits [of "unat x"] show_nat_digits [of "unat y"]
      show_nat_digits [of "unat z"]
    by (auto simp: ip show_ip_form list_all_iff)
qed

lemma show_ip_plain [simp]:
  "CHR 0x0A \<notin> set (show_ip ip)" "CHR '' '' \<notin> set (show_ip ip)" "CHR ''-'' \<notin> set (show_ip ip)" "show_ip ip \<noteq> []"
proof -
  show "CHR 0x0A \<notin> set (show_ip ip)" using show_ip_chars [of "CHR 0x0A" ip] by (auto simp: is_digit_def)
  show "CHR '' '' \<notin> set (show_ip ip)" using show_ip_chars [of "CHR '' ''" ip] by (auto simp: is_digit_def)
  show "CHR ''-'' \<notin> set (show_ip ip)" using show_ip_chars [of "CHR ''-''" ip] by (auto simp: is_digit_def)
  obtain w x y z where "ip = ipv4_new w x y z" by (rule ipv4_cases)
  then show "show_ip ip \<noteq> []" by (simp add: show_ip_form)
qed

text \<open>The commands of the code.\<close>

lemma word_of_append [simp]: "CHR '' '' \<notin> set s \<Longrightarrow> word_of (s @ CHR '' '' # r) = s"
  unfolding word_of_def by (induction s) auto

lemma gateway_route_effect: "route_effect (''route delete '' @ show_ip gw @ '' 2>/dev/null'') r = r - {show_ip gw}"
proof -
  have "\<exists>c s. show_ip gw = c # s \<and> c \<noteq> CHR ''-''"
    using show_ip_plain(3,4) [of gw] by (cases "show_ip gw") auto
  then show ?thesis by (auto simp: route_effect_def numeral_eq_Suc)
qed

lemma route_effects:
  "route_effect (''ifconfig '' @ c) r = r"
  "route_effect (''dscacheutil '' @ c) r = r"
  "CHR '' '' \<notin> set p \<Longrightarrow> route_effect (''route add -net '' @ p @ '' '' @ gw) r = insert p r"
  "CHR '' '' \<notin> set p \<Longrightarrow> route_effect (''route delete -net '' @ p @ '' 2>/dev/null'') r = r - {p}"
  by (simp_all add: route_effect_def)

lemma set_dns_effect:
  "store_keys (set_dns (scripted_sys busy) dns1 dns2 n) = insert global_key (store_keys n)"
  "routes_of (set_dns (scripted_sys busy) dns1 dns2 n) = routes_of n"
  "open_fds (set_dns (scripted_sys busy) dns1 dns2 n) = open_fds n"
proof -
  let ?script = "''d.init'' @ nl @ ''d.add ServerAddresses * '' @ show_ip dns1 @ '' '' @ show_ip dns2 @ nl @
    ''set State:/Network/Global/DNS'' @ nl @ ''quit'' @ nl"
  let ?lines = "[''d.init'', ''d.add ServerAddresses * '' @ show_ip dns1 @ '' '' @ show_ip dns2,
    ''set State:/Network/Global/DNS'', ''quit'']"
  have "\<forall>l\<in>set ?lines. CHR 0x0A \<notin> set l" by simp
  then have "script_effect (script_of ?lines) keys = insert global_key keys" for keys
    by (subst script_effect_lines) (simp_all add: line_effect_def global_key_def)
  moreover have "?script = script_of ?lines" by (simp add: script_of_def)
  ultimately have e: "script_effect ?script keys = insert global_key keys" for keys by metis
  note d = route_effects(2) [of "''-flushcache 2>/dev/null; killall -HUP mDNSResponder 2>/dev/null''", simplified]
  show "store_keys (set_dns (scripted_sys busy) dns1 dns2 n) = insert global_key (store_keys n)"
    unfolding set_dns_def Let_def shell_run e ..
  show "routes_of (set_dns (scripted_sys busy) dns1 dns2 n) = routes_of n"
    unfolding set_dns_def Let_def shell_run using d by simp
  show "open_fds (set_dns (scripted_sys busy) dns1 dns2 n) = open_fds n"
    unfolding set_dns_def Let_def shell_run ..
qed

lemma register_effect:
  assumes "CHR 0x0A \<notin> set iface" and "CHR 0x0A \<notin> set dns1" and "CHR 0x0A \<notin> set dns2"
  shows "store_keys (register_service (scripted_sys busy) iface (show_ip ip) (show_ip gw) (show_ip nm) dns1 dns2 n) =
      {service_key ''IPv4'', service_key ''Interface''} \<union> (if dns1 = [] then {} else {service_key ''DNS''}) \<union> store_keys n"
    and "routes_of (register_service (scripted_sys busy) iface (show_ip ip) (show_ip gw) (show_ip nm) dns1 dns2 n) = routes_of n"
    and "open_fds (register_service (scripted_sys busy) iface (show_ip ip) (show_ip gw) (show_ip nm) dns1 dns2 n) = open_fds n"
  using assms by (auto simp: register_service_def Let_def shell_run script_effects)

lemma down_effect:
  "store_keys (network_down (scripted_sys busy) config tun n) =
     store_keys n - service_keys - (if no_dns config then {} else {global_key})"
  "routes_of (network_down (scripted_sys busy) config tun n) = routes_of n - (if no_route config then {} else halves)"
  "open_fds (network_down (scripted_sys busy) config tun n) =
     (if utun_fd tun \<ge> 0 then removeAll (utun_fd tun) (open_fds n) else open_fds n)"
proof -
  let ?lines = "[''remove State:/Network/Global/DNS'', ''quit'']"
  have "\<forall>l\<in>set ?lines. CHR 0x0A \<notin> set l" by simp
  then have "script_effect (script_of ?lines) keys = keys - {global_key}" for keys
    by (subst script_effect_lines) (simp_all add: line_effect_def global_key_def)
  moreover have "global_dns_script = script_of ?lines" by (simp add: script_of_def global_dns_script_def)
  ultimately have g: "script_effect global_dns_script keys = keys - {global_key}" for keys by metis
  have s: "script_effect remove_script keys = keys - service_keys" for keys
    using script_effects(4) [of "[]" "[]" "[]" "[]" "[]"] by (simp add: service_keys_def)
  have close: "store_keys (utun_drop (scripted_sys busy) tun n') = store_keys n'"
    "routes_of (utun_drop (scripted_sys busy) tun n') = routes_of n'"
    "open_fds (utun_drop (scripted_sys busy) tun n') =
      (if utun_fd tun \<ge> 0 then removeAll (utun_fd tun) (open_fds n') else open_fds n')" for n'
    by (simp_all add: utun_drop_def scripted_sys_def)
  note r = route_effects(4) [of "''0.0.0.0/1''", simplified] route_effects(4) [of "''128.0.0.0/1''", simplified]
  show "store_keys (network_down (scripted_sys busy) config tun n) =
      store_keys n - service_keys - (if no_dns config then {} else {global_key})"
    by (simp add: network_down_def Let_def close shell_run unregister_service_def g s)
  show "routes_of (network_down (scripted_sys busy) config tun n) =
      routes_of n - (if no_route config then {} else halves)"
    by (auto simp: network_down_def Let_def close shell_run unregister_service_def r halves_def)
  show "open_fds (network_down (scripted_sys busy) config tun n) =
      (if utun_fd tun \<ge> 0 then removeAll (utun_fd tun) (open_fds n) else open_fds n)"
    by (simp add: network_down_def Let_def close shell_run unregister_service_def)
qed

text \<open>
  The whole of the set-up, on the side of the network. A session with routes first deletes the
  route to the gateway's own address, whose ever it was.
\<close>

definition up_routes :: "tether_config \<Rightarrow> addresses \<Rightarrow> string set \<Rightarrow> string set" where
  "up_routes config a routes =
     (if no_route config then routes else halves \<union> (routes - {show_ip (sess_gateway a)}))"

definition up_keys :: "tether_config \<Rightarrow> string set" where
  "up_keys config =
     (if no_dns config then if no_route config then {} else {service_key ''IPv4'', service_key ''Interface''}
      else insert global_key service_keys)"

lemma dns_effect:
  assumes "CHR 0x0A \<notin> set iface"
  shows "store_keys (network_dns (scripted_sys busy) config iface a n) = up_keys config \<union> store_keys n"
    and "routes_of (network_dns (scripted_sys busy) config iface a n) = routes_of n"
    and "open_fds (network_dns (scripted_sys busy) config iface a n) = open_fds n"
  using assms
  by (auto simp: network_dns_def Let_def set_dns_effect register_effect up_keys_def service_keys_def split: prod.split)

lemma default_route_effect:
  "store_keys (snd (utun_set_default_route (scripted_sys busy) tun (show_ip gw) n)) = store_keys n"
  "routes_of (snd (utun_set_default_route (scripted_sys busy) tun (show_ip gw) n)) =
     halves \<union> (routes_of n - {show_ip gw})"
  "open_fds (snd (utun_set_default_route (scripted_sys busy) tun (show_ip gw) n)) = open_fds n"
proof -
  note r = route_effects(3) [of "''0.0.0.0/1''", simplified] route_effects(3) [of "''128.0.0.0/1''", simplified]
    route_effects(4) [of "''0.0.0.0/1''", simplified] route_effects(4) [of "''128.0.0.0/1''", simplified]
    gateway_route_effect [simplified]
  show "store_keys (snd (utun_set_default_route (scripted_sys busy) tun (show_ip gw) n)) = store_keys n"
    "open_fds (snd (utun_set_default_route (scripted_sys busy) tun (show_ip gw) n)) = open_fds n"
    by (simp_all add: utun_set_default_route_def Let_def shell_run)
  show "routes_of (snd (utun_set_default_route (scripted_sys busy) tun (show_ip gw) n)) =
      halves \<union> (routes_of n - {show_ip gw})"
    by (auto simp: utun_set_default_route_def Let_def shell_run r halves_def)
qed

lemma show_nat_plain: "CHR 0x0A \<notin> set (show_nat n)"
  using show_nat_digits [of n] by (auto simp: list_all_iff is_digit_def)

lemma configure_effect:
  "\<exists>n'. utun_configure (scripted_sys busy) tun ip gw nm n = (Ok (), n') \<and> store_keys n' = store_keys n \<and>
    routes_of n' = routes_of n \<and> open_fds n' = open_fds n"
proof -
  have s: "run_sh (scripted_sys busy) cmd m = (Inr 0, snd (run_sh (scripted_sys busy) cmd m))" for cmd m
    by (simp add: prod_eq_iff shell_run)
  have "routes_of (snd (run_sh (scripted_sys busy) (''ifconfig '' @ c) m)) = routes_of m" for c m
    using route_effects(1) [of c] by (simp only: shell_run)
  then show ?thesis
    unfolding utun_configure_def Let_def by (subst s) (simp del: append_Cons add: shell_run(1,2))
qed

lemma up_effect:
  assumes "\<not> {0..<256} \<subseteq> busy"
  shows "\<exists>tun n'. network_up (scripted_sys busy) config a n = (Ok (Some tun), n') \<and> utun_fd tun = 3 \<and>
    store_keys n' = up_keys config \<union> store_keys n \<and>
    routes_of n' = up_routes config a (routes_of n) \<and> open_fds n' = 3 # open_fds n"
proof -
  let ?tun = "\<lparr>utun_fd = 3, utun_unit = (LEAST u. u \<notin> busy), ifname = ''utun'' @ show_nat (LEAST u. u \<notin> busy)\<rparr>"
  have c: "utun_create (scripted_sys busy) n = (Ok ?tun, n\<lparr>open_fds := 3 # open_fds n\<rparr>)"
    using assms by (simp add: utun_create_form Let_def)
  obtain n1 where n1: "utun_configure (scripted_sys busy) ?tun (show_ip (sess_ip a)) (show_ip (sess_gateway a))
      (show_ip (sess_netmask a)) (n\<lparr>open_fds := 3 # open_fds n\<rparr>) = (Ok (), n1)" "store_keys n1 = store_keys n"
      "routes_of n1 = routes_of n" "open_fds n1 = 3 # open_fds n"
    using configure_effect [of busy ?tun "show_ip (sess_ip a)" "show_ip (sess_gateway a)" "show_ip (sess_netmask a)"
        "n\<lparr>open_fds := 3 # open_fds n\<rparr>"] by auto
  have "CHR 0x0A \<notin> set (ifname ?tun)" using show_nat_plain by simp
  note d = dns_effect [OF this, of busy config a n1]
  show ?thesis
    using n1 d by (simp add: network_up_def io_then_def io_try_def c Let_def default_route_effect up_routes_def)
qed

lemma up_none:
  assumes "{0..<256} \<subseteq> busy"
  shows "network_up (scripted_sys busy) config a n = (Ok None, n\<lparr>open_fds := 3 # open_fds n\<rparr>)"
  using assms by (simp add: network_up_def io_then_def io_try_def io_lift_def utun_create_form)

lemma up_keys_removed: "up_keys config \<subseteq> service_keys \<union> (if no_dns config then {} else {global_key})"
  by (auto simp: up_keys_def service_keys_def)

text \<open>
  Claim C10: what a session does to the network, and that it takes it back. With a free unit the set-up
  succeeds for every configuration and all addresses. Then exactly these are new: the keys of the
  service, unless neither DNS nor a route is wanted; the global DNS key and the service's DNS key,
  unless \<open>--no-dns\<close>; and the two routes that cover all addresses, unless \<open>--no-route\<close>, in which case
  a route to the gateway's own address that was there is deleted. The tear-down, whatever happened to
  the rest of the network in between, removes all of the new ones, removes nothing else, and closes the
  interface. So what it leaves is what was there before, less such entries that were there already and
  less the route to the gateway: those are not restored.
\<close>

theorem network_restored:
  assumes "\<not> {0..<256} \<subseteq> busy"
  shows "\<exists>tun n1. network_up (scripted_sys busy) config a n = (Ok (Some tun), n1) \<and>
    store_keys n1 = up_keys config \<union> store_keys n \<and>
    routes_of n1 = (if no_route config then routes_of n else halves \<union> (routes_of n - {show_ip (sess_gateway a)})) \<and>
    open_fds n1 = 3 # open_fds n \<and>
    (\<forall>n2. store_keys (network_down (scripted_sys busy) config tun n2) =
        store_keys n2 - service_keys - (if no_dns config then {} else {global_key}) \<and>
      routes_of (network_down (scripted_sys busy) config tun n2) =
        routes_of n2 - (if no_route config then {} else halves) \<and>
      open_fds (network_down (scripted_sys busy) config tun n2) = removeAll 3 (open_fds n2)) \<and>
    store_keys (network_down (scripted_sys busy) config tun n1) =
      store_keys n - service_keys - (if no_dns config then {} else {global_key}) \<and>
    routes_of (network_down (scripted_sys busy) config tun n1) =
      routes_of n - (if no_route config then {} else insert (show_ip (sess_gateway a)) halves)"
proof -
  obtain tun n1 where n1: "network_up (scripted_sys busy) config a n = (Ok (Some tun), n1)" "utun_fd tun = 3"
    "store_keys n1 = up_keys config \<union> store_keys n" "routes_of n1 = up_routes config a (routes_of n)"
    "open_fds n1 = 3 # open_fds n"
    using up_effect [OF assms] by blast
  moreover have "up_keys config \<union> store_keys n - service_keys - (if no_dns config then {} else {global_key}) =
      store_keys n - service_keys - (if no_dns config then {} else {global_key})"
    using up_keys_removed [of config] by auto
  ultimately show ?thesis
    by (intro exI [of _ tun] exI [of _ n1]) (auto simp: down_effect up_routes_def)
qed

definition plain_config :: tether_config where
  "plain_config = \<lparr>no_route = False, no_dns = False, static_ip = None, gateway = None,
     netmask = ipv4_new 255 255 255 0, log_level = Info, watch_mode = False, dns_mode = System,
     dns_provider = Cloudflare, daemon = False, install = False, uninstall = False\<rparr>"

text \<open>A full session over a store that holds the DNS key of another service, and two routes.\<close>

theorem network_restored_witness:
  "\<exists>tun n1. network_up (scripted_sys {0}) plain_config fallback_addresses
      \<lparr>sh_log = [], routes_of = {''10.0.0.0/8'', ''192.168.42.129''},
       store_keys = {service_key ''Other'', global_key}, open_fds = [], tun_log = []\<rparr> = (Ok (Some tun), n1) \<and>
    {global_key, service_key ''DNS''} \<subseteq> store_keys n1 \<and>
    routes_of n1 = {''0.0.0.0/1'', ''128.0.0.0/1'', ''10.0.0.0/8''} \<and>
    store_keys (network_down (scripted_sys {0}) plain_config tun n1) = {service_key ''Other''} \<and>
    routes_of (network_down (scripted_sys {0}) plain_config tun n1) = {''10.0.0.0/8''}"
proof -
  let ?n = "\<lparr>sh_log = [], routes_of = {''10.0.0.0/8'', ''192.168.42.129''},
    store_keys = {service_key ''Other'', global_key}, open_fds = [], tun_log = []\<rparr>"
  have "1 \<in> {0..<256} - {0 :: nat}" by simp
  then have "\<not> {0..<256} \<subseteq> {0 :: nat}" by blast
  from network_restored [OF this, of plain_config fallback_addresses ?n]
  obtain tun n1 where r: "network_up (scripted_sys {0}) plain_config fallback_addresses ?n = (Ok (Some tun), n1)"
    "store_keys n1 = up_keys plain_config \<union> {service_key ''Other'', global_key}"
    "routes_of n1 = halves \<union> ({''10.0.0.0/8'', ''192.168.42.129''} - {show_ip (sess_gateway fallback_addresses)})"
    "store_keys (network_down (scripted_sys {0}) plain_config tun n1) =
      {service_key ''Other'', global_key} - service_keys - {global_key}"
    "routes_of (network_down (scripted_sys {0}) plain_config tun n1) =
      {''10.0.0.0/8'', ''192.168.42.129''} - insert (show_ip (sess_gateway fallback_addresses)) halves"
    by (auto simp: plain_config_def)
  have gw: "show_ip (sess_gateway fallback_addresses) = ''192.168.42.129''"
    by (simp add: fallback_addresses_def show_ip_form show_nat.simps digit_char_def)
  have o: "{service_key ''Other'', global_key} - service_keys - {global_key} = {service_key ''Other''}"
    by (auto simp: service_keys_def service_key_def global_key_def)
  have u: "{global_key, service_key ''DNS''} \<subseteq> store_keys n1"
    unfolding r(2) by (simp add: up_keys_def plain_config_def service_keys_def)
  have h: "routes_of n1 = {''0.0.0.0/1'', ''128.0.0.0/1'', ''10.0.0.0/8''}"
    "{''10.0.0.0/8'', ''192.168.42.129''} - insert (show_ip (sess_gateway fallback_addresses)) halves = {''10.0.0.0/8''}"
    unfolding r(3) gw by (auto simp: halves_def)
  show ?thesis by (rule exI [of _ tun], rule exI [of _ n1]) (use r(1,4,5) o u h in simp)
qed

end
