(* ===== verification/Session_Loop.thy ===== *)
theory Session_Loop
  imports Proto_Rndis Arp Ipc
begin

text \<open>
  The loop of \<open>run_session\<close> in \<^verbatim>\<open>src/main.rs\<close>: keepalives for the device, statistics for the
  clients, commands from them. An iteration sees the clock, the two flags, the counters of the
  I/O thread, what the clients have sent since the last poll and what \<open>accept\<close> returns, a
  \<open>tick\<close>; the loop runs over the ticks of its iterations. Times are nanoseconds since some start, rates are rational.
\<close>

section \<open>One iteration\<close>

definition SECOND :: nat where [simp]: "SECOND = 1000000000"

definition TX_CHANNEL_BOUND :: nat where [simp]: "TX_CHANNEL_BOUND = 4096"

definition as_secs :: "nat \<Rightarrow> nat" where [simp]: "as_secs d = d div SECOND"

record tick =
  tick_now :: nat
  tick_running :: bool
  tick_bridge :: bool
  tick_queued :: nat
  tick_stats :: shared_stats
  tick_accepted :: "client option"
  tick_sent :: "(string \<times> bool) list"

record loop_state =
  last_keepalive :: nat
  last_stats :: nat
  prev_tx_bytes :: u64
  prev_rx_bytes :: u64
  keepalives :: "u8 list list"
  loop_ipc :: "ipc_server option"

definition loop_start :: "nat \<Rightarrow> ipc_server option \<Rightarrow> loop_state" where
  "loop_start now ipc = \<lparr>last_keepalive = now, last_stats = now, prev_tx_bytes = 0, prev_rx_bytes = 0,
     keepalives = [], loop_ipc = ipc\<rparr>"

text \<open>The keepalive is an ARP request for the address 0.0.0.0, to everybody.\<close>

definition keepalive_frame :: "mac \<Rightarrow> ipv4 \<Rightarrow> u8 list outcome" where
  "keepalive_frame host_mac ip =
     (let arp_buf = replicate ETH_BUF_SIZE 0;
          total = eth_hdr_size + arp_packet_size;
          eth = \<lparr>eth_dst = mac_broadcast, eth_src = host_mac, eth_type = u16_to_be ARP_ETHERTYPE\<rparr> in
      and_then (write_raw arp_buf 0 (eth_hdr_bytes eth)) (\<lambda>arp_buf.
      let arp = \<lparr>hw_type = u16_to_be ARP_HW_ETHERNET, proto_type = u16_to_be 0x0800, hw_len = 6, proto_len = 4,
                 arp_opcode = u16_to_be ARP_OP_REQUEST, sender_mac = host_mac, sender_ip = u32_to_be ip,
                 target_mac = mac_broadcast, target_ip = u32_to_be 0\<rparr> in
      and_then (write_raw arp_buf eth_hdr_size (arp_packet_bytes arp)) (\<lambda>arp_buf.
      subslice_to arp_buf total)))"

text \<open>\<open>try_send\<close> drops the message when the channel is full.\<close>

definition send_keepalive :: "mac \<Rightarrow> ipv4 \<Rightarrow> tick \<Rightarrow> loop_state \<Rightarrow> loop_state outcome" where
  "send_keepalive host_mac ip t st =
     and_then (keepalive_frame host_mac ip) (\<lambda>frame.
     case wrap_frame frame (replicate RNDIS_BUF_SIZE 0) of
       Ok (rlen, rndis_buf) \<Rightarrow>
         and_then (subslice_to rndis_buf rlen) (\<lambda>msg.
         Ok (if tick_queued t < TX_CHANNEL_BOUND then st\<lparr>keepalives := keepalives st @ [msg]\<rparr> else st))
     | Err _ \<Rightarrow> Ok st | Panic \<Rightarrow> Panic | Undefined \<Rightarrow> Undefined)"

definition mbps :: "u64 \<Rightarrow> u64 \<Rightarrow> rat \<Rightarrow> rat" where
  "mbps cur prev elapsed = of_nat (unat (cur - prev)) * 8 / elapsed / 1000000"

definition report_stats :: "codec \<Rightarrow> bool \<Rightarrow> tick \<Rightarrow> loop_state \<Rightarrow> loop_state" where
  "report_stats cd can_clone t st =
     (let elapsed = of_nat (tick_now t - last_stats st) / of_nat SECOND in
      if elapsed > 0 then
        (let cur_tx = tx_bytes (tick_stats t); cur_rx = rx_bytes (tick_stats t);
             msg = \<lparr>tx_mbps = mbps cur_tx (prev_tx_bytes st) elapsed, rx_mbps = mbps cur_rx (prev_rx_bytes st) elapsed,
                    total_tx_bytes = cur_tx, total_rx_bytes = cur_rx,
                    total_tx_pkts = tx_pkts (tick_stats t), total_rx_pkts = rx_pkts (tick_stats t)\<rparr> in
         st\<lparr>loop_ipc := map_option (send_stats cd can_clone msg) (loop_ipc st),
            prev_tx_bytes := cur_tx, prev_rx_bytes := cur_rx\<rparr>)
      else st)"

text \<open>
  \<open>True\<close> is the \<open>break\<close> after a stop or disable command. What has arrived by now is in the
  clients' sockets when the poll reads them.
\<close>

definition poll_command :: "codec \<Rightarrow> bool \<Rightarrow> tick \<Rightarrow> loop_state \<Rightarrow> (bool \<times> loop_state) outcome" where
  "poll_command cd can_clone t st =
     (case loop_ipc st of
        Some ipc \<Rightarrow> map_ok (\<lambda>(c, ipc). (c = Stop \<or> c = Disable, st\<lparr>loop_ipc := Some ipc\<rparr>))
          (ipc_poll cd can_clone (tick_accepted t) (hear (tick_sent t) ipc))
      | None \<Rightarrow> Ok (False, st))"

definition session_tick ::
  "codec \<Rightarrow> bool \<Rightarrow> mac \<Rightarrow> ipv4 \<Rightarrow> tick \<Rightarrow> loop_state \<Rightarrow> (bool \<times> loop_state) outcome" where
  "session_tick cd can_clone host_mac ip t st =
     and_then (if as_secs (tick_now t - last_keepalive st) \<ge> 5
               then map_ok (\<lambda>st. st\<lparr>last_keepalive := tick_now t\<rparr>) (send_keepalive host_mac ip t st)
               else Ok st) (\<lambda>st.
     if as_secs (tick_now t - last_stats st) \<ge> 5
     then let st = report_stats cd can_clone t st in
          poll_command cd can_clone t (st\<lparr>last_stats := tick_now t\<rparr>)
     else Ok (False, st))"

text \<open>The loop; \<open>True\<close> when it has ended, \<open>False\<close> when the ticks have.\<close>

fun session_loop ::
  "codec \<Rightarrow> bool \<Rightarrow> mac \<Rightarrow> ipv4 \<Rightarrow> tick list \<Rightarrow> loop_state \<Rightarrow> (bool \<times> loop_state) outcome" where
  "session_loop cd can_clone host_mac ip [] st = Ok (False, st)"
| "session_loop cd can_clone host_mac ip (t # ts) st =
     (if tick_running t \<and> tick_bridge t then
        and_then (session_tick cd can_clone host_mac ip t st) (\<lambda>(broke, st).
        if broke then Ok (True, st) else session_loop cd can_clone host_mac ip ts st)
      else Ok (True, st))"

section \<open>The keepalive\<close>

definition keepalive_message :: "mac \<Rightarrow> ipv4 \<Rightarrow> u8 list" where
  "keepalive_message host_mac ip = data_message (arp_wire mac_broadcast host_mac 1 host_mac ip mac_broadcast 0)"

lemma keepalive_frame_ok:
  "keepalive_frame host_mac ip = Ok (arp_wire mac_broadcast host_mac 1 host_mac ip mac_broadcast 0)"
proof -
  let ?eth = "eth_hdr_bytes \<lparr>eth_dst = mac_broadcast, eth_src = host_mac, eth_type = u16_to_be ARP_ETHERTYPE\<rparr>"
  let ?arp = "arp_packet_bytes \<lparr>hw_type = u16_to_be ARP_HW_ETHERNET, proto_type = u16_to_be 0x0800, hw_len = 6,
    proto_len = 4, arp_opcode = u16_to_be ARP_OP_REQUEST, sender_mac = host_mac, sender_ip = u32_to_be ip,
    target_mac = mac_broadcast, target_ip = u32_to_be 0\<rparr>"
  have "length ?eth = 14" "length ?arp = 28"
    using eth_layout.length_to_bytes arp_layout.length_to_bytes by simp_all
  moreover have "?eth @ ?arp = arp_wire mac_broadcast host_mac 1 host_mac ip mac_broadcast 0"
    by (simp add: eth_hdr_bytes_def arp_packet_bytes_def arp_wire_def to_be_bytes_consts)
  ultimately show ?thesis
    by (simp add: keepalive_frame_def Let_def write_raw_0 write_raw_append drop_replicate flip: append_assoc)
qed

lemma send_keepalive_ok:
  "send_keepalive host_mac ip t st =
    Ok (if tick_queued t < TX_CHANNEL_BOUND
        then st\<lparr>keepalives := keepalives st @ [keepalive_message host_mac ip]\<rparr> else st)"
proof -
  let ?f = "arp_wire mac_broadcast host_mac 1 host_mac ip mac_broadcast 0"
  have "wrap_frame ?f (replicate RNDIS_BUF_SIZE 0) =
      Ok (44 + length ?f, data_message ?f @ drop (44 + length ?f) (replicate RNDIS_BUF_SIZE 0))"
    by (rule rndis_drv.wrap_fits) simp
  then show ?thesis
    by (simp add: send_keepalive_def keepalive_frame_ok keepalive_message_def)
qed

section \<open>What an iteration does\<close>

text \<open>Five whole seconds have passed.\<close>

definition due :: "nat \<Rightarrow> tick \<Rightarrow> bool" where
  "due since t \<longleftrightarrow> since + 5 * SECOND \<le> tick_now t"

lemma as_secs_due: "5 \<le> as_secs (tick_now t - since) \<longleftrightarrow> due since t"
  unfolding due_def by (auto simp: less_eq_div_iff_mult_less_eq)

text \<open>The server as an iteration that reports to the clients polls it.\<close>

definition at_poll :: "codec \<Rightarrow> tick \<Rightarrow> tether_stats \<Rightarrow> ipc_server \<Rightarrow> ipc_server" where
  "at_poll cd t msg i = hear (tick_sent t) (send_stats cd True msg i)"

text \<open>What a poll makes of the clients after a report was sent to them.\<close>

definition polled :: "codec \<Rightarrow> tick \<Rightarrow> ipc_server option \<Rightarrow> bool \<Rightarrow> ipc_server option \<Rightarrow> bool" where
  "polled cd t ipc broke ipc' \<longleftrightarrow>
     (case ipc of None \<Rightarrow> \<not> broke \<and> ipc' = None
      | Some i \<Rightarrow> \<exists>msg c i'. ipc_poll cd True (tick_accepted t) (at_poll cd t msg i) = Ok (c, i') \<and>
          ipc' = Some i' \<and> (broke \<longleftrightarrow> c = Stop \<or> c = Disable))"

lemma ipc_poll_ok: "\<exists>c st'. ipc_poll cd True accepted st = Ok (c, st')"
  using ipc_poll_pending ipc_poll_idle by (cases "requests st") blast+

lemma report_stats_due:
  assumes "due (last_stats st) t"
  shows "\<exists>msg. report_stats cd can_clone t st = st\<lparr>loop_ipc := map_option (send_stats cd can_clone msg) (loop_ipc st),
    prev_tx_bytes := tx_bytes (tick_stats t), prev_rx_bytes := rx_bytes (tick_stats t)\<rparr>"
proof -
  have "last_stats st < tick_now t" using assms by (simp add: due_def)
  then have e: "0 < (of_nat (tick_now t - last_stats st) / of_nat SECOND :: rat)" by simp
  show ?thesis unfolding report_stats_def Let_def if_P [OF e] by blast
qed

lemma stats_and_poll:
  assumes "due (last_stats st) t"
  shows "\<exists>broke ipc'. polled cd t (loop_ipc st) broke ipc' \<and>
    poll_command cd True t ((report_stats cd True t st)\<lparr>last_stats := tick_now t\<rparr>) =
    Ok (broke, st\<lparr>last_stats := tick_now t, prev_tx_bytes := tx_bytes (tick_stats t),
      prev_rx_bytes := rx_bytes (tick_stats t), loop_ipc := ipc'\<rparr>)"
proof -
  obtain msg where r: "report_stats cd True t st = st\<lparr>loop_ipc := map_option (send_stats cd True msg) (loop_ipc st),
      prev_tx_bytes := tx_bytes (tick_stats t), prev_rx_bytes := rx_bytes (tick_stats t)\<rparr>"
    using report_stats_due [OF assms] by blast
  show ?thesis
  proof (cases "loop_ipc st")
    case None
    then show ?thesis by (intro exI [of _ False] exI [of _ None]) (simp add: r poll_command_def polled_def)
  next
    case (Some i)
    obtain c i' where "ipc_poll cd True (tick_accepted t) (at_poll cd t msg i) = Ok (c, i')"
      using ipc_poll_ok by blast
    then show ?thesis
      by (intro exI [of _ "c = Stop \<or> c = Disable"] exI [of _ "Some i'"])
        (auto simp: r Some poll_command_def polled_def at_poll_def)
  qed
qed

lemma session_tick_form:
  "\<exists>broke st'. session_tick cd True host_mac ip t st = Ok (broke, st') \<and>
    last_keepalive st' = (if due (last_keepalive st) t then tick_now t else last_keepalive st) \<and>
    last_stats st' = (if due (last_stats st) t then tick_now t else last_stats st) \<and>
    keepalives st' = keepalives st @
      (if due (last_keepalive st) t \<and> tick_queued t < TX_CHANNEL_BOUND then [keepalive_message host_mac ip] else []) \<and>
    (if due (last_stats st) t then polled cd t (loop_ipc st) broke (loop_ipc st')
     else \<not> broke \<and> loop_ipc st' = loop_ipc st)"
proof -
  define st1 where "st1 = (if due (last_keepalive st) t
    then (if tick_queued t < TX_CHANNEL_BOUND then st\<lparr>keepalives := keepalives st @ [keepalive_message host_mac ip]\<rparr>
          else st)\<lparr>last_keepalive := tick_now t\<rparr> else st)"
  have k: "last_stats st1 = last_stats st" "loop_ipc st1 = loop_ipc st" by (simp_all add: st1_def)
  have tick: "session_tick cd True host_mac ip t st =
      (if due (last_stats st1) t then poll_command cd True t ((report_stats cd True t st1)\<lparr>last_stats := tick_now t\<rparr>)
       else Ok (False, st1))"
    unfolding session_tick_def as_secs_due send_keepalive_ok Let_def st1_def by simp
  show ?thesis
  proof (cases "due (last_stats st) t")
    case True
    with stats_and_poll [of st1 t cd] obtain broke ipc' where
      "polled cd t (loop_ipc st) broke ipc'"
      "session_tick cd True host_mac ip t st = Ok (broke, st1\<lparr>last_stats := tick_now t,
        prev_tx_bytes := tx_bytes (tick_stats t), prev_rx_bytes := rx_bytes (tick_stats t), loop_ipc := ipc'\<rparr>)"
      by (auto simp: tick k)
    with True show ?thesis by (simp add: st1_def)
  next
    case False
    then show ?thesis
      by (intro exI [of _ False] exI [of _ st1] conjI) (simp_all add: tick k, simp_all add: st1_def)
  qed
qed

section \<open>The loop\<close>

text \<open>Ticks in order, each at most \<open>g\<close> after the one before, and the time of the last.\<close>

fun paced :: "nat \<Rightarrow> nat \<Rightarrow> tick list \<Rightarrow> bool" where
  "paced g now [] \<longleftrightarrow> True"
| "paced g now (t # ts) \<longleftrightarrow> now \<le> tick_now t \<and> tick_now t \<le> now + g \<and> paced g (tick_now t) ts"

fun end_of :: "nat \<Rightarrow> tick list \<Rightarrow> nat" where
  "end_of now [] = now"
| "end_of now (t # ts) = end_of (tick_now t) ts"




definition seconds_tick :: "nat \<Rightarrow> tick" where
  "seconds_tick i = \<lparr>tick_now = i * SECOND, tick_running = True, tick_bridge = True, tick_queued = 0,
     tick_stats = stats_default, tick_accepted = None, tick_sent = []\<rparr>"



section \<open>Commands end the session\<close>

definition ends_session :: "ipc_command \<Rightarrow> bool" where
  "ends_session c \<longleftrightarrow> c = Stop \<or> c = Disable"

definition end_pending :: "ipc_server option \<Rightarrow> bool" where
  "end_pending ipc \<longleftrightarrow> (case ipc of None \<Rightarrow> False | Some i \<Rightarrow>
     (case requests i of [] \<Rightarrow> False | c # _ \<Rightarrow> ends_session c))"

text \<open>A client's line is there to be read, and asks for the end.\<close>

definition end_waiting :: "codec \<Rightarrow> ipc_server \<Rightarrow> bool" where
  "end_waiting cd i \<longleftrightarrow> (\<exists>c\<in>set (clients i). asked cd c \<in> {Some ''stop'', Some ''disable''})"

lemma end_waiting_iff: "end_waiting cd i \<longleftrightarrow> (\<exists>a\<in>asked cd ` set (clients i). a \<in> {Some ''stop'', Some ''disable''})"
  by (auto simp: end_waiting_def)

lemma at_poll_requests: "requests (at_poll cd t msg i) = requests i"
  by (simp add: at_poll_def hear_def requests_def send_stats_def send_message_def broadcast_def
      split: option.split)

lemma asked_same: "inbox c = inbox c' \<Longrightarrow> peer_open c = peer_open c' \<Longrightarrow> asked cd c = asked cd c'"
  by (simp add: asked_def kept_def)

lemma hear_waiting: "end_waiting cd i \<Longrightarrow> end_waiting cd (hear sent i)"
  using arrive_asked [of _ "clients i" cd _ sent] by (fastforce simp: end_waiting_def hear_def)

lemma broadcast_frame:
  "requests (broadcast True data i) = requests i" "listening (broadcast True data i) = listening i"
  by (simp_all add: requests_def broadcast_def)

lemma hear_broadcast_waiting:
  "end_waiting cd (hear sent (broadcast True data i)) \<longleftrightarrow> end_waiting cd (hear sent i)"
proof -
  have "map (asked cd) (arrive sent (map (write_client data) cs)) = map (asked cd) (arrive sent cs)" for cs
    by (induction sent cs rule: arrive.induct) (auto intro!: asked_same simp: write_client_def)
  from arg_cong [OF this, of set] have "asked cd ` set (arrive sent (map (write_client data) (clients i))) =
      asked cd ` set (arrive sent (clients i))" by simp
  then show ?thesis unfolding end_waiting_iff by (simp add: hear_def broadcast_def)
qed

lemma at_poll_waiting: "end_waiting cd (at_poll cd' t msg i) \<longleftrightarrow> end_waiting cd (hear (tick_sent t) i)"
  by (simp add: at_poll_def send_stats_def send_message_def hear_broadcast_waiting split: option.split)

lemma at_poll_listening: "listening (at_poll cd t msg i) = listening i"
  by (simp add: at_poll_def send_stats_def send_message_def hear_def broadcast_frame split: option.split)

lemma pending_ends:
  assumes "polled cd t ipc broke ipc'" and "end_pending ipc"
  shows "broke"
proof -
  obtain i c cs where i: "ipc = Some i" "requests i = c # cs" "ends_session c"
    using assms(2) by (auto simp: end_pending_def split: option.splits list.splits)
  then show ?thesis
    using assms(1) ipc_poll_pending [of "at_poll cd t msg i" c cs cd True "tick_accepted t" for msg]
    by (auto simp: polled_def at_poll_requests ends_session_def) (metis outcome.inject(1) prod.inject)+
qed

text \<open>The poll that reads the line makes the command pending.\<close>

lemma waiting_pends:
  assumes "polled cd t (Some i) broke ipc'" and "requests i = []"
    and "end_waiting cd (hear (tick_sent t) i) \<or>
      listening i \<and> (\<exists>c. tick_accepted t = Some c \<and> asked cd c \<in> {Some ''stop'', Some ''disable''})"
  shows "\<not> broke \<and> end_pending ipc'"
proof -
  obtain msg c i' where p: "ipc_poll cd True (tick_accepted t) (at_poll cd t msg i) = Ok (c, i')"
    "ipc' = Some i'" "broke \<longleftrightarrow> c = Stop \<or> c = Disable"
    using assms(1) by (auto simp: polled_def)
  let ?i = "at_poll cd t msg i"
  let ?r = "requests_in cd (with_accepted (tick_accepted t) ?i)"
  have "end_waiting cd ?i \<or> listening ?i \<and> (\<exists>c. tick_accepted t = Some c \<and> asked cd c \<in> {Some ''stop'', Some ''disable''})"
    using assms(3) by (simp add: at_poll_waiting at_poll_listening)
  then have "\<exists>c'\<in>set (with_accepted (tick_accepted t) ?i). asked cd c' \<in> {Some ''stop'', Some ''disable''}"
    by (auto simp: end_waiting_def with_accepted_def)
  then obtain c' where "c' \<in> set (with_accepted (tick_accepted t) ?i)" "asked cd c' \<in> {Some ''stop'', Some ''disable''}" ..
  then have "''stop'' \<in> ?r \<or> ''disable'' \<in> ?r"
    by (auto simp: requests_in_def intro: rev_image_eqI)
  moreover have "c = No_Command \<and> requests i' = in_order ?r"
    using requests_idle [of ?i cd "tick_accepted t"] assms(2) p(1) by (auto simp: at_poll_requests)
  ultimately show ?thesis
    using p(2,3) by (auto simp: end_pending_def in_order_def ends_session_def)
qed

text \<open>A poll that reports an earlier request leaves the line where it is.\<close>

lemma waiting_stays:
  assumes "polled cd t (Some i) broke ipc'" and "requests i \<noteq> []" and "end_waiting cd (hear (tick_sent t) i)"
  shows "broke \<or> (\<exists>i'. ipc' = Some i' \<and> requests i' = [] \<and> end_waiting cd i')"
proof -
  obtain msg c i' where p: "ipc_poll cd True (tick_accepted t) (at_poll cd t msg i) = Ok (c, i')"
    "ipc' = Some i'" "broke \<longleftrightarrow> c = Stop \<or> c = Disable"
    using assms(1) by (auto simp: polled_def)
  obtain c' cs where r: "requests i = c' # cs" using assms(2) by (cases "requests i") auto
  then have "c = c'" "requests i' = cs" "clients i' = clients (at_poll cd t msg i)"
    using ipc_poll_pending [of "at_poll cd t msg i" c' cs cd True "tick_accepted t"] p(1)
    by (auto simp: at_poll_requests)
  moreover have "end_waiting cd (at_poll cd t msg i)" using assms(3) by (simp add: at_poll_waiting)
  moreover have "c' \<noteq> Stop \<and> c' \<noteq> Disable \<Longrightarrow> cs = []" using r by (auto simp: requests_def split: if_splits)
  ultimately show ?thesis using p(2,3) by (auto simp: end_waiting_def)
qed

lemma pending_ends_loop:
  assumes "paced g now ts" and "end_pending (loop_ipc st)" and "last_stats st \<le> now"
    and "now < last_stats st + 5 * SECOND" and "last_stats st + 5 * SECOND \<le> end_of now ts"
  shows "\<exists>st'. session_loop cd True host_mac ip ts st = Ok (True, st')"
  using assms
proof (induction ts arbitrary: now st)
  case Nil
  then show ?case by simp
next
  case (Cons t ts)
  obtain broke st1 where st1: "session_tick cd True host_mac ip t st = Ok (broke, st1)"
    "last_stats st1 = (if due (last_stats st) t then tick_now t else last_stats st)"
    "if due (last_stats st) t then polled cd t (loop_ipc st) broke (loop_ipc st1)
     else \<not> broke \<and> loop_ipc st1 = loop_ipc st"
    using session_tick_form by blast
  show ?case
  proof (cases "due (last_stats st) t")
    case True
    then have broke using st1(3) Cons.prems(2) pending_ends by simp
    with st1(1) show ?thesis by simp
  next
    case False
    then have "\<exists>st'. session_loop cd True host_mac ip ts st1 = Ok (True, st')"
      using Cons.prems st1 by (intro Cons.IH [of "tick_now t"]) (simp_all add: due_def del: SECOND_def)
    with False st1 show ?thesis by simp
  qed
qed

lemma waiting_ends_loop:
  assumes "paced g now ts" and "loop_ipc st = Some i" and "requests i = []" and "end_waiting cd i"
    and "last_stats st \<le> now" and "now < last_stats st + 5 * SECOND"
    and "last_stats st + (10 * SECOND + g) \<le> end_of now ts"
  shows "\<exists>st'. session_loop cd True host_mac ip ts st = Ok (True, st')"
  using assms
proof (induction ts arbitrary: now st)
  case Nil
  then show ?case by simp
next
  case (Cons t ts)
  obtain broke st1 where st1: "session_tick cd True host_mac ip t st = Ok (broke, st1)"
    "last_stats st1 = (if due (last_stats st) t then tick_now t else last_stats st)"
    "if due (last_stats st) t then polled cd t (loop_ipc st) broke (loop_ipc st1)
     else \<not> broke \<and> loop_ipc st1 = loop_ipc st"
    using session_tick_form by blast
  have "\<exists>st'. session_loop cd True host_mac ip ts st1 = Ok (True, st')"
  proof (cases "due (last_stats st) t")
    case True
    with st1(3) Cons.prems(2) have "polled cd t (Some i) broke (loop_ipc st1)" by simp
    from waiting_pends [OF this Cons.prems(3)] hear_waiting [OF Cons.prems(4)]
    have "end_pending (loop_ipc st1)" by simp
    with True st1(2) Cons.prems show ?thesis
      by (intro pending_ends_loop [of g "tick_now t"]) simp_all
  next
    case False
    with Cons.prems st1 show ?thesis
      by (intro Cons.IH [of "tick_now t"]) (simp_all add: due_def del: SECOND_def)
  qed
  with st1(1) show ?case by simp
qed

lemma session_loop_append:
  "session_loop cd True host_mac ip ts1 st = Ok (False, st1) \<Longrightarrow>
   session_loop cd True host_mac ip (ts1 @ ts2) st = session_loop cd True host_mac ip ts2 st1"
proof (induction ts1 arbitrary: st)
  case (Cons t ts1)
  obtain broke st2 where "session_tick cd True host_mac ip t st = Ok (broke, st2)"
    using session_tick_form by blast
  with Cons show ?case by (auto split: if_splits)
qed simp

text \<open>From the iteration whose poll finds the line.\<close>

lemma line_ends_loop:
  assumes "loop_ipc st = Some i" and "due (last_stats st) t"
    and "end_waiting cd (hear (tick_sent t) i) \<or> requests i = [] \<and> listening i \<and>
      (\<exists>c. tick_accepted t = Some c \<and> asked cd c \<in> {Some ''stop'', Some ''disable''})"
    and "paced g (tick_now t) ts"
    and "tick_now t + (if requests i = [] then 5 * SECOND else 10 * SECOND + g) \<le> end_of (tick_now t) ts"
  shows "\<exists>st'. session_loop cd True host_mac ip (t # ts) st = Ok (True, st')"
proof -
  obtain broke st1 where st1: "session_tick cd True host_mac ip t st = Ok (broke, st1)"
    "last_stats st1 = tick_now t" "polled cd t (Some i) broke (loop_ipc st1)"
    using session_tick_form [of cd host_mac ip t st] assms(1,2) by auto
  show ?thesis
  proof (cases "requests i = []")
    case True
    with waiting_pends [OF st1(3) True] assms(3) have "end_pending (loop_ipc st1)" by auto
    then have "\<exists>st'. session_loop cd True host_mac ip ts st1 = Ok (True, st')"
      using assms(4,5) True st1(2) by (intro pending_ends_loop [of g "tick_now t"]) simp_all
    with st1(1) show ?thesis by auto
  next
    case False
    with waiting_stays [OF st1(3) False] assms(3)
    consider broke | i' where "loop_ipc st1 = Some i'" "requests i' = []" "end_waiting cd i'" by auto
    then show ?thesis
    proof cases
      case 1
      with st1(1) show ?thesis by simp
    next
      case (2 i')
      then have "\<exists>st'. session_loop cd True host_mac ip ts st1 = Ok (True, st')"
        using assms(4,5) False st1(2) by (intro waiting_ends_loop [of g "tick_now t"]) simp_all
      with st1(1) show ?thesis by auto
    qed
  qed
qed

text \<open>
  Claim C11: a client can end a session with a line that a poll finds. The session has run for any
  iterations, with whatever its clients did, and comes to one, \<open>t\<close>, that polls: five seconds have
  passed since the last report. When a connected client's line is there by then, or the poll accepts a
  client whose line is, and it asks for stop or disable, the loop has left five seconds after \<open>t\<close>,
  by the next poll; if an earlier request was still to be reported, which keeps this poll from reading
  and accepting, then ten seconds and one interval after it. Nothing is assumed of what any client
  sends after that, nor of the flags of the other threads. A client that has no line there when a poll
  reads is dropped by it, and what it sends later is not covered.
\<close>

theorem command_ends_session:
  assumes "session_loop cd True host_mac ip ts1 (loop_start now0 ipc0) = Ok (False, st)"
    and "loop_ipc st = Some i" and "due (last_stats st) t"
    and "c \<in> set (clients (hear (tick_sent t) i)) \<or> requests i = [] \<and> listening i \<and> tick_accepted t = Some c"
    and "asked cd c \<in> {Some ''stop'', Some ''disable''}"
    and "paced g (tick_now t) ts2"
    and "tick_now t + (if requests i = [] then 5 * SECOND else 10 * SECOND + g) \<le> end_of (tick_now t) ts2"
  shows "\<exists>st'. session_loop cd True host_mac ip (ts1 @ t # ts2) (loop_start now0 ipc0) = Ok (True, st')"
proof -
  have "end_waiting cd (hear (tick_sent t) i) \<or> requests i = [] \<and> listening i \<and>
      (\<exists>c. tick_accepted t = Some c \<and> asked cd c \<in> {Some ''stop'', Some ''disable''})"
    using assms(4,5) by (auto simp: end_waiting_def)
  from line_ends_loop [OF assms(2,3) this assms(6,7)] show ?thesis
    by (simp only: session_loop_append [OF assms(1)])
qed

lemma quiet_stretch:
  assumes "list_all (\<lambda>t. tick_running t \<and> tick_bridge t \<and> \<not> due since t) ts" and "last_stats st = since"
  shows "\<exists>st'. session_loop cd True host_mac ip ts st = Ok (False, st') \<and> last_stats st' = since \<and> loop_ipc st' = loop_ipc st"
  using assms
proof (induction ts arbitrary: st)
  case (Cons t ts)
  obtain broke st1 where st1: "session_tick cd True host_mac ip t st = Ok (broke, st1)"
    "last_stats st1 = since" "\<not> broke" "loop_ipc st1 = loop_ipc st"
    using session_tick_form [of cd host_mac ip t st] Cons.prems by auto
  with Cons.IH [of st1] Cons.prems(1) show ?case by auto
qed simp

text \<open>
  A client connects and says something before the first poll, which keeps it, and sends its stop
  line before the second.
\<close>

definition hello_tick :: tick where
  "hello_tick = (seconds_tick 5)\<lparr>tick_accepted := Some (sender (json_line ''type'' ''status''))\<rparr>"

definition stop_tick :: tick where
  "stop_tick = (seconds_tick 10)\<lparr>tick_sent := [(json_line ''type'' ''stop'', True)]\<rparr>"

lemma tiny_line:
  assumes "quote \<notin> set t" and "line_feed \<notin> set t" and "length t < 100"
  shows "asked tiny_codec (sender (json_line ''type'' t)) = Some t"
    and "after_line (sender (json_line ''type'' t)) = sender []"
proof -
  have l: "first_line (json_line ''type'' t) = json_line ''type'' t"
    using assms(2) takeWhile_append2 [of t "\<lambda>x. x \<noteq> line_feed" "[quote, CHR 0x7D, line_feed]"]
    by (fastforce simp: first_line_def json_line_def)
  have p: "parse_one (json_line ''type'' t) = Some (JObject [(''type'', JString t)])"
    by (rule parse_json_line) (use assms(1) in simp_all)
  have "line_feed \<in> set (json_line ''type'' t)" "json_line ''type'' t \<noteq> []" by (simp_all add: json_line_def)
  then show "asked tiny_codec (sender (json_line ''type'' t)) = Some t"
    by (simp add: asked_def kept_def sender_def msg_type_def l p tiny_codec_def client_msg_forms del: line_feed_def)
  show "after_line (sender (json_line ''type'' t)) = sender []"
    using assms(3) by (simp add: after_line_def sender_def read_line_from.simps [of _ "[]"] read_chunk_def json_line_def)
qed

theorem command_ends_session_witness:
  "\<exists>st'. session_loop tiny_codec True (Mac 2 0 0 0 0 1) 0x0A000002
      ((map seconds_tick [1, 2, 3, 4] @ hello_tick # map seconds_tick [6, 7, 8, 9]) @
        stop_tick # map seconds_tick [11, 12, 13, 14, 15])
      (loop_start 0 (Some (ipc_new True))) = Ok (True, st')"
proof -
  let ?loop = "session_loop tiny_codec True (Mac 2 0 0 0 0 1) 0x0A000002"
  let ?st0 = "loop_start 0 (Some (ipc_new True))"
  obtain st1 where 1: "?loop (map seconds_tick [1, 2, 3, 4]) ?st0 = Ok (False, st1)"
    "last_stats st1 = 0" "loop_ipc st1 = Some (ipc_new True)"
    using quiet_stretch [of 0 "map seconds_tick [1, 2, 3, 4]" ?st0 tiny_codec "Mac 2 0 0 0 0 1" "0x0A000002"]
    by (auto simp: seconds_tick_def due_def loop_start_def)
  have "due (last_stats st1) hello_tick" by (simp add: hello_tick_def seconds_tick_def due_def 1(2))
  then obtain broke st2 where 2: "session_tick tiny_codec True (Mac 2 0 0 0 0 1) 0x0A000002 hello_tick st1 = Ok (broke, st2)"
    "last_stats st2 = 5 * SECOND" "polled tiny_codec hello_tick (Some (ipc_new True)) broke (loop_ipc st2)"
    using session_tick_form [of tiny_codec "Mac 2 0 0 0 0 1" "0x0A000002" hello_tick st1] 1(3)
    by (auto simp: hello_tick_def seconds_tick_def)
  then obtain msg c i where i: "ipc_poll tiny_codec True (tick_accepted hello_tick)
      (at_poll tiny_codec hello_tick msg (ipc_new True)) = Ok (c, i)"
    "loop_ipc st2 = Some i" "broke \<longleftrightarrow> c = Stop \<or> c = Disable"
    by (auto simp: polled_def)
  let ?hello = "sender (json_line ''type'' ''status'')"
  have hello: "asked tiny_codec ?hello = Some ''status''" "after_line ?hello = sender []" "kept tiny_codec ?hello"
    using tiny_line [of "''status''"] by (auto simp: asked_def split: if_splits)
  have none: "clients (at_poll tiny_codec hello_tick msg (ipc_new True)) = []"
    "requests (at_poll tiny_codec hello_tick msg (ipc_new True)) = []"
    by (simp_all add: at_poll_requests) (simp_all add: at_poll_def hear_def send_stats_def send_message_def
      broadcast_def ipc_new_def requests_def split: option.split)
  have "with_accepted (tick_accepted hello_tick) (at_poll tiny_codec hello_tick msg (ipc_new True)) = [?hello]"
    using none(1) by (simp add: with_accepted_def at_poll_listening hello_tick_def ipc_new_def)
  with requests_idle [OF none(2), of tiny_codec "tick_accepted hello_tick"] i(1) hello
  have c: "c = No_Command" "clients i = [sender []]" "requests i = []"
    by (auto simp: requests_in_def in_order_def)
  obtain st3 where 3: "?loop (map seconds_tick [6, 7, 8, 9]) st2 = Ok (False, st3)"
    "last_stats st3 = 5 * SECOND" "loop_ipc st3 = Some i"
    using quiet_stretch [of "5 * SECOND" "map seconds_tick [6, 7, 8, 9]" st2 tiny_codec "Mac 2 0 0 0 0 1" "0x0A000002"]
      2(2) i(2) by (auto simp: seconds_tick_def due_def)
  have "?loop (map seconds_tick [1, 2, 3, 4] @ hello_tick # map seconds_tick [6, 7, 8, 9]) ?st0 = Ok (False, st3)"
    using 2(1) 3(1) c(1) i(3) by (simp only: session_loop_append [OF 1(1)]) (simp add: hello_tick_def seconds_tick_def)
  moreover have "due (last_stats st3) stop_tick" by (simp add: 3(2) stop_tick_def seconds_tick_def due_def)
  moreover have "sender (json_line ''type'' ''stop'') \<in> set (clients (hear (tick_sent stop_tick) i)) \<or>
      requests i = [] \<and> listening i \<and> tick_accepted stop_tick = Some (sender (json_line ''type'' ''stop''))"
    by (simp add: hear_def c(2) stop_tick_def sender_def)
  moreover have "asked tiny_codec (sender (json_line ''type'' ''stop'')) \<in> {Some ''stop'', Some ''disable''}"
    using tiny_line(1) [of "''stop''"] by simp
  moreover have "paced SECOND (tick_now stop_tick) (map seconds_tick [11, 12, 13, 14, 15])"
    "tick_now stop_tick + (if requests i = [] then 5 * SECOND else 10 * SECOND + SECOND)
      \<le> end_of (tick_now stop_tick) (map seconds_tick [11, 12, 13, 14, 15])"
    using c(3) by (simp_all add: stop_tick_def seconds_tick_def)
  ultimately show ?thesis
    using 3(3) by (intro command_ends_session [of tiny_codec _ _ _ 0 _ st3 i]) simp_all
qed

end
