(* ===== verification/Daemon.thy ===== *)
theory Daemon
  imports Config
begin

text \<open>
  \<^verbatim>\<open>src/daemon.rs\<close>: installing the launchd job. The command line the job runs, the property
  list with the USB identifiers that start it, and the calls that install and remove it; the
  file system and \<open>launchctl\<close> are parameters. Logging is left out.
\<close>

definition PLIST_PATH :: string where
  "PLIST_PATH = ''/Library/LaunchDaemons/com.tetherd.daemon.plist''"

definition LOG_DIR :: string where "LOG_DIR = ''/var/log''"

definition VIDPIDS :: "(string \<times> string) list" where
  "VIDPIDS =
    [(''0x18d1'', ''0x4eeb''),
     (''0x18d1'', ''0x4ee1''),
     (''0x18d1'', ''0x4ee2''),
     (''0x18d1'', ''0x4ee3''),
     (''0x18d1'', ''0x4ee4''),
     (''0x18d1'', ''0x4ee5''),
     (''0x18d1'', ''0x4ee6''),
     (''0x18d1'', ''0x4ee7''),
     (''0x22d9'', ''0x2766''),
     (''0x22b8'', ''0x2e82''),
     (''0x0bb4'', ''0x0ffe''),
     (''0x0bb4'', ''0x0c02''),
     (''0x04e8'', ''0x6863''),
     (''0x04e8'', ''0x6864''),
     (''0x04e8'', ''0x6865''),
     (''0x04e8'', ''0x6866''),
     (''0x2717'', ''0xff08''),
     (''0x2717'', ''0xff80''),
     (''0x2a70'', ''0x9011''),
     (''0x1004'', ''0x633e'')]"

section \<open>The job's command line\<close>

definition dns_mode_flag :: "tether_config \<Rightarrow> string" where
  "dns_mode_flag config = (case dns_mode config of System \<Rightarrow> ''system'' | DoH \<Rightarrow> ''doh'' | DoT \<Rightarrow> ''dot'')"

definition dns_provider_flag :: "tether_config \<Rightarrow> string" where
  "dns_provider_flag config = (case dns_provider config of
     Cloudflare \<Rightarrow> ''cloudflare'' | Google \<Rightarrow> ''google'' | Quad9 \<Rightarrow> ''quad9'')"

definition daemon_args :: "tether_config \<Rightarrow> string list" where
  "daemon_args config =
     [''--daemon'', ''--no-route'', ''--watch'', ''--dns-mode='' @ dns_mode_flag config,
      ''--dns-provider='' @ dns_provider_flag config] @
     (case static_ip config of Some ip \<Rightarrow> [''--static='' @ show_ip ip] | None \<Rightarrow> []) @
     (case gateway config of Some gw \<Rightarrow> [''--gateway='' @ show_ip gw] | None \<Rightarrow> []) @
     (if log_level config = Debug then [''--verbose''] else [])"

section \<open>The property list\<close>

text \<open>\<open>join("\n")\<close> and \<open>from_str_radix(_, 16)\<close>, where a sign is not used.\<close>

fun join_lines :: "string list \<Rightarrow> string" where
  "join_lines [] = []"
| "join_lines [l] = l"
| "join_lines (l # m # ls) = l @ newline # join_lines (m # ls)"

fun hex_value :: "char \<Rightarrow> nat option" where
  "hex_value c = (let n = of_char c in
     if 48 \<le> n \<and> n \<le> 57 then Some (n - 48)
     else if 97 \<le> n \<and> n \<le> 102 then Some (n - 87)
     else if 65 \<le> n \<and> n \<le> 70 then Some (n - 55) else None)"

fun hex_number :: "string \<Rightarrow> nat \<Rightarrow> nat option" where
  "hex_number [] n = Some n"
| "hex_number (c # s) n = (case hex_value c of
     Some d \<Rightarrow> if 16 * n + d < 2 ^ 32 then hex_number s (16 * n + d) else None | None \<Rightarrow> None)"

definition from_str_radix16 :: "string \<Rightarrow> nat option" where
  "from_str_radix16 s = (if s = [] then None else hex_number s 0)"

fun trim_0x :: "string \<Rightarrow> string" where
  "trim_0x (a # b # s) = (if a = CHR ''0'' \<and> b = CHR ''x'' then trim_0x s else a # b # s)"
| "trim_0x s = s"

definition id_number :: "string \<Rightarrow> nat" where
  "id_number s = (case from_str_radix16 (trim_0x s) of Some n \<Rightarrow> n | None \<Rightarrow> 0)"

definition matching_dict :: "string \<times> string \<Rightarrow> string" where
  "matching_dict = (\<lambda>(vid, pid). join_lines
     [''                <dict>'',
      ''<key>idVendor</key>'',
      ''<integer>'' @ show_nat (id_number vid) @ ''</integer>'',
      ''<key>idProduct</key>'',
      ''<integer>'' @ show_nat (id_number pid) @ ''</integer>'',
      ''<key>IOProviderClass</key>'',
      ''<string>IOUSBDevice</string>'',
      ''</dict>''])"

definition arg_line :: "string \<Rightarrow> string" where
  "arg_line a = ''            <string>'' @ a @ ''</string>''"

definition plist_text :: "string \<Rightarrow> string \<Rightarrow> string \<Rightarrow> string \<Rightarrow> string" where
  \<open>plist_text exe_path program_args matching_dicts log_file = join_lines
     [''<?xml version="1.0" encoding="UTF-8"?>'',
      ''<!DOCTYPE plist PUBLIC "-//Apple//DTD PLIST 1.0//EN"'',
      ''  "http://www.apple.com/DTDs/PropertyList-1.0.dtd">'',
      ''<plist version="1.0">'',
      ''<dict>'',
      ''    <key>Label</key>'',
      ''    <string>com.tetherd.daemon</string>'',
      ''    <key>ProgramArguments</key>'',
      ''    <array>'',
      ''        <string>'' @ exe_path @ ''</string>'',
      program_args,
      ''    </array>'',
      ''    <key>LaunchEvents</key>'',
      ''    <dict>'',
      ''        <key>com.apple.iokit.matching</key>'',
      ''        <dict>'',
      ''            <key>com.apple.device-attach</key>'',
      ''            <array>'',
      matching_dicts,
      ''            </array>'',
      ''        </dict>'',
      ''    </dict>'',
      ''    <key>KeepAlive</key>'',
      ''    <false/>'',
      ''    <key>RunAtLoad</key>'',
      ''    <false/>'',
      ''    <key>StandardOutPath</key>'',
      ''    <string>'' @ log_file @ ''</string>'',
      ''    <key>StandardErrorPath</key>'',
      ''    <string>'' @ log_file @ ''</string>'',
      ''    <key>UserName</key>'',
      ''    <string>root</string>'',
      ''    <key>GroupName</key>'',
      ''    <string>wheel</string>'',
      ''</dict>'',
      ''</plist>'']\<close>

definition daemon_plist :: "string \<Rightarrow> tether_config \<Rightarrow> string" where
  "daemon_plist exe config =
     plist_text exe (join_lines (map arg_line (daemon_args config))) (join_lines (map matching_dict VIDPIDS))
       (LOG_DIR @ ''/tetherd.log'')"

section \<open>Installing and removing\<close>

record 'w daemon_sys =
  current_exe :: "'w \<Rightarrow> (string + string) \<times> 'w"
  write_file :: "string \<Rightarrow> string \<Rightarrow> 'w \<Rightarrow> (string + unit) \<times> 'w"
  run_status :: "string \<Rightarrow> string list \<Rightarrow> 'w \<Rightarrow> (string + int) \<times> 'w"
  remove_file :: "string \<Rightarrow> 'w \<Rightarrow> (string + unit) \<times> 'w"

definition install_daemon :: "'w daemon_sys \<Rightarrow> tether_config \<Rightarrow> 'w \<Rightarrow> 'w" where
  "install_daemon sys config w =
     (case current_exe sys w of
        (Inl _, w) \<Rightarrow> w
      | (Inr exe, w) \<Rightarrow>
          (case write_file sys PLIST_PATH (daemon_plist exe config) w of
             (Inl _, w) \<Rightarrow> w
           | (Inr _, w) \<Rightarrow>
               (let w = snd (run_status sys ''launchctl'' [''unload'', PLIST_PATH] w) in
                snd (run_status sys ''launchctl'' [''load'', ''-w'', PLIST_PATH] w))))"

definition uninstall_daemon :: "'w daemon_sys \<Rightarrow> 'w \<Rightarrow> 'w" where
  "uninstall_daemon sys w =
     (let w = snd (run_status sys ''launchctl'' [''unload'', PLIST_PATH] w) in
      snd (remove_file sys PLIST_PATH w))"

section \<open>What the job runs with\<close>

text \<open>
  How a command line of long options is read (the documented behaviour of the \<open>clap\<close> derive on
  \<open>CliArgs\<close>): flags set their field, \<open>--key=value\<close> sets the value, and the two options with a
  default have it unless given.
\<close>

definition no_args :: cli_args where
  "no_args =
     \<lparr>arg_no_route = False, arg_no_dns = False, arg_static_ip = None, arg_gateway = None, arg_netmask = None,
      arg_config = None, arg_verbose = False, arg_watch = False, arg_dns_mode = ''system'',
      arg_dns_provider = ''cloudflare'', arg_daemon = False, arg_install = False, arg_uninstall = False\<rparr>"

definition value_of :: "string \<Rightarrow> string \<Rightarrow> string option" where
  "value_of key a = (if take (length key) a = key then Some (drop (length key) a) else None)"

definition read_arg :: "string \<Rightarrow> cli_args \<Rightarrow> cli_args" where
  "read_arg a args =
     (if a = ''--daemon'' then args\<lparr>arg_daemon := True\<rparr>
      else if a = ''--no-route'' then args\<lparr>arg_no_route := True\<rparr>
      else if a = ''--no-dns'' then args\<lparr>arg_no_dns := True\<rparr>
      else if a = ''--watch'' then args\<lparr>arg_watch := True\<rparr>
      else if a = ''--verbose'' then args\<lparr>arg_verbose := True\<rparr>
      else case value_of ''--dns-mode='' a of Some v \<Rightarrow> args\<lparr>arg_dns_mode := v\<rparr> | None \<Rightarrow>
        case value_of ''--dns-provider='' a of Some v \<Rightarrow> args\<lparr>arg_dns_provider := v\<rparr> | None \<Rightarrow>
        case value_of ''--static='' a of Some v \<Rightarrow> args\<lparr>arg_static_ip := Some v\<rparr> | None \<Rightarrow>
        case value_of ''--gateway='' a of Some v \<Rightarrow> args\<lparr>arg_gateway := Some v\<rparr> | None \<Rightarrow>
        case value_of ''--netmask='' a of Some v \<Rightarrow> args\<lparr>arg_netmask := Some v\<rparr> | None \<Rightarrow> args)"

definition read_args :: "string list \<Rightarrow> cli_args" where
  "read_args as = fold read_arg as no_args"

lemma read_arg_simps:
  "read_arg ''--daemon'' args = args\<lparr>arg_daemon := True\<rparr>"
  "read_arg ''--no-route'' args = args\<lparr>arg_no_route := True\<rparr>"
  "read_arg ''--watch'' args = args\<lparr>arg_watch := True\<rparr>"
  "read_arg ''--verbose'' args = args\<lparr>arg_verbose := True\<rparr>"
  "read_arg (''--dns-mode='' @ v) args = args\<lparr>arg_dns_mode := v\<rparr>"
  "read_arg (''--dns-provider='' @ v) args = args\<lparr>arg_dns_provider := v\<rparr>"
  "read_arg (''--static='' @ v) args = args\<lparr>arg_static_ip := Some v\<rparr>"
  "read_arg (''--gateway='' @ v) args = args\<lparr>arg_gateway := Some v\<rparr>"
  by (simp_all add: read_arg_def value_of_def)

lemma read_daemon_args:
  "read_args (daemon_args config) =
    no_args\<lparr>arg_daemon := True, arg_no_route := True, arg_watch := True,
      arg_dns_mode := dns_mode_flag config, arg_dns_provider := dns_provider_flag config,
      arg_static_ip := map_option show_ip (static_ip config), arg_gateway := map_option show_ip (gateway config),
      arg_verbose := (log_level config = Debug)\<rparr>"
  by (auto simp: read_args_def daemon_args_def read_arg_simps no_args_def simp del: append_Cons append_Nil
      split: option.split)

lemma ipv4_of_show: "ipv4_from_str (show_ip ip) = Some ip"
proof -
  have "\<exists>a b c d. ip = ipv4_new a b c d"
    unfolding ipv4_new_def by (metis u32_from_be_parts)
  then show ?thesis using ipv4_from_show by auto
qed

lemma flags_read_back:
  "parse_dns_mode (dns_mode_flag config) = dns_mode config"
  "parse_dns_provider (dns_provider_flag config) = dns_provider config"
proof -
  have low: "to_lowercase ''system'' = ''system''" "to_lowercase ''doh'' = ''doh''" "to_lowercase ''dot'' = ''dot''"
    "to_lowercase ''cloudflare'' = ''cloudflare''" "to_lowercase ''google'' = ''google''" "to_lowercase ''quad9'' = ''quad9''"
    by code_simp+
  show "parse_dns_mode (dns_mode_flag config) = dns_mode config"
    by (cases "dns_mode config") (simp_all add: dns_mode_flag_def parse_dns_mode_def low)
  show "parse_dns_provider (dns_provider_flag config) = dns_provider config"
    by (cases "dns_provider config") (simp_all add: dns_provider_flag_def parse_dns_provider_def low)
qed

text \<open>
  Claim C33: what the installed job runs with. When its command line is read as documented and there is
  no configuration file, the job has the DNS mode, provider and addresses of the configuration that
  installed it, runs as a daemon, watches, and sets no default route; the netmask, \<open>--no-dns\<close> and the
  levels other than debug are not carried over.
\<close>

theorem daemon_config_roundtrip:
  assumes "clap (daemon_args config) = read_args (daemon_args config)" and "read_config None = None"
  shows "from_cli read_config (clap (daemon_args config)) = Ok
    \<lparr>no_route = True, no_dns = False, static_ip = static_ip config,
     gateway = (if static_ip config \<noteq> None \<and> gateway config = None then Some (ipv4_new 192 168 42 129)
                else gateway config),
     netmask = ipv4_new 255 255 255 0, log_level = (if log_level config = Debug then Debug else Info),
     watch_mode = True, dns_mode = dns_mode config, dns_provider = dns_provider config,
     daemon = True, install = False, uninstall = False\<rparr>"
proof -
  have opt: "override (map_option show_ip a) None = a" "\<not> bad_address (map_option show_ip a)" for a
    by (cases a; simp add: override_def bad_address_def ipv4_of_show)+
  have m: "merged read_config (clap (daemon_args config)) = cli_base (clap (daemon_args config))"
    using assms by (simp add: merged_def read_daemon_args no_args_def)
  show ?thesis
    unfolding from_cli_form m
    by (simp add: assms(1) read_daemon_args no_args_def cli_base_def opt flags_read_back Let_def)
      (simp add: override_def bad_address_def)
qed

theorem daemon_config_roundtrip_witness:
  "from_cli (\<lambda>_. None) (read_args (daemon_args
     \<lparr>no_route = False, no_dns = True, static_ip = Some 5, gateway = Some 6, netmask = 7, log_level = Warn,
      watch_mode = False, dns_mode = DoT, dns_provider = Quad9, daemon = False, install = True, uninstall = False\<rparr>)) =
   Ok \<lparr>no_route = True, no_dns = False, static_ip = Some 5, gateway = Some 6, netmask = ipv4_new 255 255 255 0,
      log_level = Info, watch_mode = True, dns_mode = DoT, dns_provider = Quad9, daemon = True, install = False,
      uninstall = False\<rparr>"
  by (subst daemon_config_roundtrip) simp_all

end
