(* ===== verification/Lifecycle.thy ===== *)
theory Lifecycle
  imports Session Session_Loop Daemon
begin

text \<open>
  \<^verbatim>\<open>src/main.rs\<close> from the top: \<open>main\<close> with its two modes, the watch loop, and \<open>run_session\<close> as
  a whole. The world is a pair: the USB side of \<open>nusb\<close> and the system side of \<open>sys_calls\<close>.

  While a session runs its threads do too; what the scheduler makes of them is the parameter
  \<open>threads\<close>: for a session and a world, the iterations of the session's loop, whether the I/O
  thread panicked or found the device gone, and the world afterwards. What each thread does is the
  subject of \<open>Io_Loop\<close>, \<open>Tx_Path\<close> and \<open>Dot_Pool\<close>. Sleeping is a number of milliseconds.
\<close>

section \<open>Signals\<close>

record run_flags =
  running :: bool
  global_running :: bool

datatype signal = Ctrl_C | Sigterm

definition on_signal :: "signal \<Rightarrow> run_flags \<Rightarrow> run_flags" where
  "on_signal s f = (case s of
     Ctrl_C \<Rightarrow> f\<lparr>running := False, global_running := False\<rparr>
   | Sigterm \<Rightarrow> f\<lparr>global_running := False\<rparr>)"

definition is_running :: "run_flags \<Rightarrow> bool" where
  "is_running f \<longleftrightarrow> running f \<and> global_running f"

section \<open>A session\<close>

record thread_run =
  run_begin :: nat
  run_ticks :: "tick list"
  io_panicked :: bool
  io_gone :: bool

type_synonym ('i, 'u, 'n) threads = "'i session \<Rightarrow> 'u \<times> 'n \<Rightarrow> thread_run \<times> ('u \<times> 'n)"

definition notify ::
  "codec \<Rightarrow> bool \<Rightarrow> string \<Rightarrow> string option \<Rightarrow> string option \<Rightarrow> ipc_server option \<Rightarrow> ipc_server option" where
  "notify cd can_clone state ip iface = map_option (send_state cd can_clone state ip iface)"

text \<open>On the USB side of the world.\<close>

definition on_usb :: "('u, 'a) io \<Rightarrow> ('u \<times> 'n, 'a) io" where
  "on_usb m = (\<lambda>(u, n). case m u of (r, u) \<Rightarrow> (r, (u, n)))"

text \<open>
  \<open>Some (b, ipc)\<close> is the return value \<open>b\<close>, whether the device was disconnected; \<open>None\<close> means that
  the ticks ran out before the session's loop ended.
\<close>

definition run_session ::
  "('d, 'i, 'u) nusb \<Rightarrow> 'n sys_calls \<Rightarrow> codec \<Rightarrow> bool \<Rightarrow> ('i, 'u, 'n) threads \<Rightarrow> tether_config \<Rightarrow>
   ipc_server option \<Rightarrow> ('u \<times> 'n, (bool \<times> ipc_server option) option) io" where
  "run_session nu sys cd can_clone threads config ipc =
     io_then (session_up nu sys config) (\<lambda>up.
     case up of None \<Rightarrow> io_lift (Ok (Some (False, ipc)))
     | Some s \<Rightarrow>
       let ip = sess_ip (sess_addr s);
           ipc = notify cd can_clone ''connected'' (Some (show_ip ip)) (Some (ifname (sess_tun s))) ipc in
       io_then (on_usb (take_endpoints nu (sess_usb s))) (\<lambda>_ w.
       case threads s w of (run, (u, n)) \<Rightarrow>
         (case session_loop cd can_clone (driver_mac (sess_drv s)) ip (run_ticks run)
                 (loop_start (run_begin run) ipc) of
            Ok (True, st) \<Rightarrow>
              let was_disconnected = io_gone run \<or> io_panicked run;
                  n = network_down sys config (sess_tun s) n in
              (Ok (Some (was_disconnected, notify cd can_clone ''disconnected'' None None (loop_ipc st))), (u, n))
          | Ok (False, _) \<Rightarrow> (Ok None, (u, n))
          | Err e \<Rightarrow> (Err e, (u, n)) | Panic \<Rightarrow> (Panic, (u, n)) | Undefined \<Rightarrow> (Undefined, (u, n)))))"

section \<open>The watch loop\<close>

text \<open>
  A round sees whether the program is still running, what the clients have sent since the last
  poll and what \<open>accept\<close> returns, its session's threads, and how many of the reads of \<open>is_running\<close> after the session still give true: no code sets the
  flags again, so after the first false read they all are.
\<close>

record ('i, 'u, 'n) watch_seen =
  round_running :: bool
  round_accepted :: "client option"
  round_sent :: "(string \<times> bool) list"
  round_threads :: "('i, 'u, 'n) threads"
  round_live :: nat

definition poll_opt ::
  "codec \<Rightarrow> bool \<Rightarrow> client option \<Rightarrow> ipc_server option \<Rightarrow> (ipc_command \<times> ipc_server option) outcome" where
  "poll_opt cd can_clone accepted ipc = (case ipc of
     Some i \<Rightarrow> map_ok (\<lambda>(c, i). (c, Some i)) (ipc_poll cd can_clone accepted i)
   | None \<Rightarrow> Ok (No_Command, None))"

definition after_session ::
  "codec \<Rightarrow> bool \<Rightarrow> bool \<Rightarrow> nat \<Rightarrow> ipc_server option \<Rightarrow> nat \<times> ipc_server option" where
  "after_session cd can_clone reconnected live ipc =
     (if reconnected \<and> 0 < live then (500 * min 6 (live - 1), notify cd can_clone ''watching'' None None ipc)
      else if 0 < live then (1000, ipc)
      else (0, ipc))"

text \<open>The result is the time slept and the server.\<close>

definition watch_round ::
  "('d, 'i, 'u) nusb \<Rightarrow> 'n sys_calls \<Rightarrow> codec \<Rightarrow> bool \<Rightarrow> tether_config \<Rightarrow> ('i, 'u, 'n) watch_seen \<Rightarrow>
   ipc_server option \<Rightarrow> ('u \<times> 'n, (nat \<times> ipc_server option) option) io" where
  "watch_round nu sys cd can_clone config seen ipc =
     io_then (io_lift (poll_opt cd can_clone (round_accepted seen) (map_option (hear (round_sent seen)) ipc))) (\<lambda>(cmd, ipc).
     if cmd = Disable then io_lift (Ok (Some (500, notify cd can_clone ''idle'' None None ipc)))
     else
       let ipc = (if cmd = Enable \<or> cmd = ipc_command.Status
                  then notify cd can_clone ''watching'' None None ipc else ipc) in
       io_then (run_session nu sys cd can_clone (round_threads seen) config ipc) (\<lambda>r.
       case r of None \<Rightarrow> io_lift (Ok None)
       | Some (reconnected, ipc) \<Rightarrow>
           io_lift (Ok (Some (after_session cd can_clone reconnected (round_live seen) ipc)))))"

fun watch_loop ::
  "('d, 'i, 'u) nusb \<Rightarrow> 'n sys_calls \<Rightarrow> codec \<Rightarrow> bool \<Rightarrow> tether_config \<Rightarrow> ('i, 'u, 'n) watch_seen list \<Rightarrow>
   ipc_server option \<Rightarrow> ('u \<times> 'n, unit option) io" where
  "watch_loop nu sys cd can_clone config [] ipc w = (Ok None, w)"
| "watch_loop nu sys cd can_clone config (seen # rest) ipc w =
     (if round_running seen then
        io_then (watch_round nu sys cd can_clone config seen ipc) (\<lambda>r.
        case r of None \<Rightarrow> io_lift (Ok None)
        | Some (_, ipc) \<Rightarrow> watch_loop nu sys cd can_clone config rest ipc) w
      else (Ok (Some ()), w))"

section \<open>The program\<close>

text \<open>What the environment of a run of the program does; the single session has threads of its own.\<close>

record ('i, 'u, 'n) program_run =
  sock_bound :: bool
  watch_rounds :: "('i, 'u, 'n) watch_seen list"
  once_threads :: "('i, 'u, 'n) threads"
  once_running :: "bool list"

text \<open>Without \<open>--watch\<close>: one session, then waiting until the program is told to stop.\<close>

definition run_once ::
  "('d, 'i, 'u) nusb \<Rightarrow> 'n sys_calls \<Rightarrow> codec \<Rightarrow> bool \<Rightarrow> tether_config \<Rightarrow> ('i, 'u, 'n) program_run \<Rightarrow>
   ('u \<times> 'n, unit option) io" where
  "run_once nu sys cd can_clone config run =
     io_then (run_session nu sys cd can_clone (once_threads run) config None) (\<lambda>r.
     case r of None \<Rightarrow> io_lift (Ok None)
     | Some _ \<Rightarrow> io_lift (Ok (if False \<in> set (once_running run) then Some () else None)))"

definition serve ::
  "('d, 'i, 'u) nusb \<Rightarrow> 'n sys_calls \<Rightarrow> codec \<Rightarrow> bool \<Rightarrow> tether_config \<Rightarrow> ('i, 'u, 'n) program_run \<Rightarrow>
   ('u \<times> 'n, unit option) io" where
  "serve nu sys cd can_clone config run =
     (let ipc = ipc_new (sock_bound run) in
      if watch_mode config
      then watch_loop nu sys cd can_clone config (watch_rounds run) (Some (send_state cd can_clone ''idle'' None None ipc))
      else run_once nu sys cd can_clone config run)"

text \<open>\<open>main\<close>: the exit code, or \<open>None\<close> as long as the program has not ended.\<close>

definition main_program ::
  "('d, 'i, 'u) nusb \<Rightarrow> 'n sys_calls \<Rightarrow> 'n daemon_sys \<Rightarrow> codec \<Rightarrow> bool \<Rightarrow> ('i, 'u, 'n) program_run \<Rightarrow>
   (string option \<Rightarrow> string option) \<Rightarrow> cli_args \<Rightarrow> nat \<Rightarrow> ('u \<times> 'n, nat option) io" where
  "main_program nu sys dsys cd can_clone run read_config args euid =
     io_then (io_try (io_lift (from_cli read_config args))) (\<lambda>c.
     case c of Inl _ \<Rightarrow> io_lift (Ok (Some 1))
     | Inr config \<Rightarrow>
       if install config then
         (if euid \<noteq> 0 then io_lift (Ok (Some 1))
          else (\<lambda>(u, n). (Ok (Some 0), (u, install_daemon dsys config n))))
       else if uninstall config then
         (if euid \<noteq> 0 then io_lift (Ok (Some 1))
          else (\<lambda>(u, n). (Ok (Some 0), (u, uninstall_daemon dsys n))))
       else if euid \<noteq> 0 then io_lift (Ok (Some 1))
       else io_then (serve nu sys cd can_clone config run) (\<lambda>r. io_lift (Ok (map_option (\<lambda>_. 0) r))))"

section \<open>The network is given back\<close>







text \<open>
  The network afterwards: nothing new, and nothing but entries of our own is gone, among which
  the code counts the route to whatever address is the gateway's. Or it is still as the set-up left it.
\<close>

definition loses_only :: "'a set \<Rightarrow> 'a set \<Rightarrow> 'a set \<Rightarrow> bool" where
  "loses_only own before after \<longleftrightarrow> after \<subseteq> before \<and> before - own \<subseteq> after"





definition no_new_fds :: "nat set \<Rightarrow> shell_world \<Rightarrow> shell_world \<Rightarrow> bool" where
  "no_new_fds busy n n' \<longleftrightarrow> {0..<256} \<subseteq> busy \<or> set (open_fds n') \<subseteq> set (open_fds n)"


lemma loses_only_refl [simp]: "loses_only own a a"
  by (simp add: loses_only_def)





lemma no_new_fds_refl [simp]: "no_new_fds busy n n"
  by (simp add: no_new_fds_def)


subsection \<open>The loop of a session, whatever it meets\<close>

text \<open>A poll or a loop that fails does so by the panic at a stream that cannot be cloned.\<close>

definition ok_or_panic :: "bool \<Rightarrow> 'a outcome \<Rightarrow> bool" where
  "ok_or_panic can_clone r \<longleftrightarrow> (case r of Ok _ \<Rightarrow> True | Panic \<Rightarrow> \<not> can_clone | _ \<Rightarrow> False)"

lemma ok_or_panic_simps [simp]:
  "ok_or_panic can_clone (Ok x)" "ok_or_panic can_clone Panic \<longleftrightarrow> \<not> can_clone"
  "\<not> ok_or_panic can_clone (Err e)" "\<not> ok_or_panic can_clone Undefined"
  "ok_or_panic can_clone (map_ok f r) \<longleftrightarrow> ok_or_panic can_clone r"
  by (simp_all add: ok_or_panic_def) (cases r; simp)








subsection \<open>Coming up\<close>







subsection \<open>A session, and the loop around it\<close>









text \<open>
  The panic after the set-up, in one session: the device came up, and no endpoint can be opened.
  Everything the set-up made stays.
\<close>

lemma endpoint_lost_leaves_network:
  assumes "device_up nu config u = (Ok (Some (usb, drv, a)), u1)" and "\<not> {0..<256} \<subseteq> busy"
    and "\<And>i ep w. open_endpoint nu i ep w = (Err e, w)"
  shows "\<exists>n'. run_session nu (scripted_sys busy) cd can_clone threads config ipc (u, n) = (Panic, (u1, n')) \<and>
    store_keys n' = up_keys config \<union> store_keys n \<and> routes_of n' = up_routes config a (routes_of n)"
proof -
  obtain tun n1 where n1: "network_up (scripted_sys busy) config a n = (Ok (Some tun), n1)"
    "store_keys n1 = up_keys config \<union> store_keys n" "routes_of n1 = up_routes config a (routes_of n)"
    using up_effect [OF assms(2)] by blast
  have "send_gratuitous nu usb (driver_mac drv) (sess_ip a) u1 = (Err e, u1)"
    unfolding send_gratuitous_form by (simp add: send_bulk_def io_then_def assms(3))
  then have "run_session nu (scripted_sys busy) cd can_clone threads config ipc (u, n) = (Panic, (u1, n1))"
    using assms(1) n1(1)
    by (simp add: run_session_def session_up_def io_then_def on_usb_def take_endpoints_def io_try_def
        io_lift_def assms(3) Let_def)
  with n1(2,3) show ?thesis by blast
qed



definition short_threads :: "(unit, script, shell_world) threads" where
  "short_threads = (\<lambda>s w. (\<lparr>run_begin = 0, run_ticks = [seconds_tick 1, (seconds_tick 2)\<lparr>tick_bridge := False\<rparr>],
     io_panicked = False, io_gone = True\<rparr>, w))"

definition seen_round :: "bool \<Rightarrow> (unit, script, shell_world) watch_seen" where
  "seen_round live = \<lparr>round_running = live, round_accepted = None, round_sent = [], round_threads = short_threads,
     round_live = 9\<rparr>"



section \<open>Commands while watching\<close>

lemma hear_requests: "requests (hear sent i) = requests i"
  by (simp add: hear_def requests_def)

lemma notify_requests: "\<exists>i'. notify cd True state ip iface (Some i) = Some i' \<and> requests i' = requests i"
  by (simp add: notify_def send_state_def send_message_def broadcast_frame split: option.split)

text \<open>
  Claim C12: what a command from a client does between sessions. In every round that the program still
  runs, a session is attempted, unless the poll reports a disable command: that is taken from the
  queue and skips this one round, whose world stays as it is. Neither it nor a stop command ends the
  loop, so without further commands the next round attempts a session again.
\<close>

theorem watch_commands:
  assumes "round_running seen"
  shows "if requests i \<noteq> [] \<and> hd (requests i) = Disable
    then \<exists>i'. requests i' = tl (requests i) \<and>
      watch_loop nu sys cd True config (seen # rest) (Some i) w = watch_loop nu sys cd True config rest (Some i') w
    else \<exists>i'. watch_loop nu sys cd True config (seen # rest) (Some i) w =
      io_then (run_session nu sys cd True (round_threads seen) config (Some i')) (\<lambda>r.
        case r of None \<Rightarrow> io_lift (Ok None)
        | Some (b, ipc) \<Rightarrow> watch_loop nu sys cd True config rest (snd (after_session cd True b (round_live seen) ipc))) w"
proof (cases "requests i \<noteq> [] \<and> hd (requests i) = Disable")
  case True
  then have "requests i = Disable # tl (requests i)" by (metis list.collapse)
  then have "requests (hear (round_sent seen) i) = Disable # tl (requests i)" by (simp only: hear_requests)
  from ipc_poll_pending [OF this, of cd True "round_accepted seen"] obtain i1 where
    1: "ipc_poll cd True (round_accepted seen) (hear (round_sent seen) i) = Ok (Disable, i1)" "requests i1 = tl (requests i)" by blast
  obtain i2 where 2: "notify cd True ''idle'' None None (Some i1) = Some i2" "requests i2 = requests i1"
    using notify_requests [of cd "''idle''" None None i1] by blast
  have "watch_round nu sys cd True config seen (Some i) w = (Ok (Some (500, Some i2)), w)"
    by (simp add: watch_round_def io_then_def io_lift_def poll_opt_def 1 2)
  with assms True 1 2 show ?thesis by (auto simp: io_then_def)
next
  case False
  obtain c i1 where 1: "ipc_poll cd True (round_accepted seen) (hear (round_sent seen) i) = Ok (c, i1)" "c \<noteq> Disable"
  proof (cases "requests (hear (round_sent seen) i)")
    case Nil
    with ipc_poll_idle [OF Nil, of cd "round_accepted seen"] that show ?thesis by blast
  next
    case (Cons c cs)
    with ipc_poll_pending [OF Cons, of cd True "round_accepted seen"] False that show ?thesis
      by (auto simp: hear_requests)
  qed
  obtain iw where "notify cd True ''watching'' None None (Some i1) = Some iw"
    using notify_requests [of cd "''watching''" None None i1] by blast
  then have "\<exists>i2. (if c = Enable \<or> c = ipc_command.Status then notify cd True ''watching'' None None (Some i1)
      else Some i1) = Some i2"
    by (cases "c = Enable \<or> c = ipc_command.Status") simp_all
  then obtain i2 where 2: "(if c = Enable \<or> c = ipc_command.Status
      then notify cd True ''watching'' None None (Some i1) else Some i1) = Some i2" by blast
  have "watch_round nu sys cd True config seen (Some i) w =
      io_then (run_session nu sys cd True (round_threads seen) config (Some i2)) (\<lambda>r.
        case r of None \<Rightarrow> io_lift (Ok None)
        | Some (b, ipc) \<Rightarrow> io_lift (Ok (Some (after_session cd True b (round_live seen) ipc)))) w"
    using 1 2 by (simp add: watch_round_def io_then_def io_lift_def poll_opt_def Let_def cong: if_cong)
  then have "watch_loop nu sys cd True config (seen # rest) (Some i) w =
      io_then (run_session nu sys cd True (round_threads seen) config (Some i2)) (\<lambda>r.
        case r of None \<Rightarrow> io_lift (Ok None)
        | Some (b, ipc) \<Rightarrow> watch_loop nu sys cd True config rest (snd (after_session cd True b (round_live seen) ipc))) w"
    using assms by (auto simp: io_then_def io_lift_def split: prod.splits outcome.splits option.splits)
  with False show ?thesis by auto
qed

theorem watch_commands_witness:
  "\<forall>w. \<exists>i'. requests i' = [] \<and>
    watch_loop (scripted_nusb phone_config) (scripted_sys {}) tiny_codec True plain_config
      [seen_round True]
      (Some (ipc_new True\<lparr>disable_requested := True\<rparr>)) w =
    watch_loop (scripted_nusb phone_config) (scripted_sys {}) tiny_codec True plain_config [] (Some i') w"
proof
  fix w
  let ?r = "seen_round True"
  have "requests (ipc_new True\<lparr>disable_requested := True\<rparr>) = [Disable]" by (simp add: requests_def ipc_new_def)
  with watch_commands [of ?r "ipc_new True\<lparr>disable_requested := True\<rparr>" "scripted_nusb phone_config" "scripted_sys {}"
      tiny_codec plain_config "[]" w]
  moreover have "round_running ?r" by (simp add: seen_round_def)
  ultimately show "\<exists>i'. requests i' = [] \<and> watch_loop (scripted_nusb phone_config) (scripted_sys {}) tiny_codec True plain_config
      [?r] (Some (ipc_new True\<lparr>disable_requested := True\<rparr>)) w =
    watch_loop (scripted_nusb phone_config) (scripted_sys {}) tiny_codec True plain_config [] (Some i') w"
    by simp
qed

text \<open>A SIGTERM is not seen by a session: its loop reads the flag that only Ctrl-C clears.\<close>

lemma sigterm_not_seen:
  "running f \<Longrightarrow> \<not> is_running (on_signal Sigterm f) \<and> running (on_signal Sigterm f)"
  "\<not> running (on_signal Ctrl_C f)"
  by (simp_all add: is_running_def on_signal_def)

section \<open>Privileges and installation\<close>

text \<open>A system with files, for the installation: what is in them and the programs run.\<close>

record daemon_world =
  files :: "string \<Rightarrow> string option"
  launched :: "(string \<times> string list) list"

definition file_sys :: "string \<Rightarrow> daemon_world daemon_sys" where
  "file_sys exe =
     \<lparr>current_exe = (\<lambda>w. (Inr exe, w)),
      write_file = (\<lambda>path text w. (Inr (), w\<lparr>files := (files w)(path \<mapsto> text)\<rparr>)),
      run_status = (\<lambda>cmd args w. (Inr 0, w\<lparr>launched := launched w @ [(cmd, args)]\<rparr>)),
      remove_file = (\<lambda>path w. (if files w path = None then Inl ''not found'' else Inr (), w\<lparr>files := (files w)(path := None)\<rparr>))\<rparr>"

lemma from_cli_cases: "(\<exists>c. from_cli read_config args = Ok c) \<or> (\<exists>e. from_cli read_config args = Err e)"
  unfolding from_cli_form Let_def by simp

lemma unprivileged:
  assumes "euid \<noteq> 0"
  shows "main_program nu sys dsys cd can_clone run read_config args euid w = (Ok (Some 1), w)"
  using from_cli_cases [of read_config args] assms
  by (auto simp: main_program_def io_then_def io_try_def io_lift_def)

text \<open>
  Claim C13: without root the program does nothing. Whatever the command line, the configuration file
  and everything around it, it exits with 1 and leaves the world as it was. As root, \<open>--install\<close>
  writes the property list of the resulting configuration and nothing else, unloads a former job
  before it loads the new one, and exits with 0 without starting a session; \<open>--uninstall\<close> afterwards
  unloads the job and leaves no property list and all other files as they were.
\<close>

theorem privileges_and_installation:
  assumes "euid \<noteq> 0" and "from_cli read_config args1 = Ok c1" and "install c1"
    and "from_cli read_config args2 = Ok c2" and "\<not> install c2" and "uninstall c2"
  shows "main_program nu sys dsys cd can_clone run read_config args euid w = (Ok (Some 1), w) \<and>
    (\<exists>n1. main_program nu sys (file_sys exe) cd can_clone run read_config args1 0 (u, n) = (Ok (Some 0), (u, n1)) \<and>
      files n1 = (files n)(PLIST_PATH \<mapsto> daemon_plist exe c1) \<and>
      launched n1 = launched n @
        [(''launchctl'', [''unload'', PLIST_PATH]), (''launchctl'', [''load'', ''-w'', PLIST_PATH])] \<and>
      main_program nu sys (file_sys exe) cd can_clone run read_config args2 0 (u, n1) =
        (Ok (Some 0), (u, n1\<lparr>files := (files n)(PLIST_PATH := None),
           launched := launched n1 @ [(''launchctl'', [''unload'', PLIST_PATH])]\<rparr>)))"
  using unprivileged [OF assms(1), of nu sys dsys cd can_clone run read_config args w] assms(2-)
  by (simp add: main_program_def io_then_def io_try_def io_lift_def install_daemon_def uninstall_daemon_def
      file_sys_def Let_def)

theorem privileges_and_installation_witness:
  "\<forall>(nu :: (unit, unit, script) nusb) sys dsys cd (run :: (unit, script, daemon_world) program_run) w.
     main_program nu sys dsys cd True run (\<lambda>_. None) no_args 501 w = (Ok (Some 1), w) \<and>
     (\<exists>n1. main_program nu sys (file_sys ''/opt/tetherd'') cd True run (\<lambda>_. None) (no_args\<lparr>arg_install := True\<rparr>) 0 w =
       (Ok (Some 0), (fst w, n1)) \<and> files n1 PLIST_PATH \<noteq> None)"
proof (intro allI)
  fix nu :: "(unit, unit, script) nusb" and sys :: "daemon_world sys_calls" and dsys :: "daemon_world daemon_sys"
    and cd and run :: "(unit, script, daemon_world) program_run" and w :: "script \<times> daemon_world"
  let ?a1 = "no_args\<lparr>arg_install := True\<rparr>" and ?a2 = "no_args\<lparr>arg_uninstall := True\<rparr>"
  have b: "\<not> bad_address None" by (simp add: bad_address_def)
  have "\<exists>c1. from_cli (\<lambda>_. None) ?a1 = Ok c1 \<and> install c1"
    by (simp add: from_cli_form merged_def no_args_def b Let_def cli_base_def)
  then obtain c1 where c1: "from_cli (\<lambda>_. None) ?a1 = Ok c1" "install c1" by blast
  have "\<exists>c2. from_cli (\<lambda>_. None) ?a2 = Ok c2 \<and> \<not> install c2 \<and> uninstall c2"
    by (simp add: from_cli_form merged_def no_args_def b Let_def cli_base_def)
  then obtain c2 where c2: "from_cli (\<lambda>_. None) ?a2 = Ok c2" "\<not> install c2" "uninstall c2" by blast
  have "(501 :: nat) \<noteq> 0" by simp
  from privileges_and_installation [OF this c1 c2, of nu sys dsys cd True run no_args w "''/opt/tetherd''" "fst w" "snd w"]
  show "main_program nu sys dsys cd True run (\<lambda>_. None) no_args 501 w = (Ok (Some 1), w) \<and>
     (\<exists>n1. main_program nu sys (file_sys ''/opt/tetherd'') cd True run (\<lambda>_. None) ?a1 0 w =
       (Ok (Some 0), (fst w, n1)) \<and> files n1 PLIST_PATH \<noteq> None)"
    by auto
qed

end
